theory Spec2Isabelle
  imports Main
begin

unbundle bit_operations_syntax

section \<open>Python primitives used by both assemblers\<close>

text \<open>
  Source text is modelled as \<open>string\<close> (a list of one-byte characters), so the model
  covers ASCII input. Python integers are unbounded: they are \<open>int\<close>, with
  \<open>push_bit\<close> for \<open><<\<close>, \<open>drop_bit\<close> for \<open>>>\<close> and \<open>AND\<close>, \<open>OR\<close> for \<open>&\<close>, \<open>|\<close>.
  Every exception of the source is a value of \<open>py_error\<close>.
\<close>

datatype py_error = ValueError | KeyError | IndexError | AttributeError | SystemExit int

text \<open>Sequencing of computations that may raise: the first exception wins.\<close>

definition bind_err :: "py_error + 'a \<Rightarrow> ('a \<Rightarrow> py_error + 'b) \<Rightarrow> py_error + 'b" where
  "bind_err m f = (case m of Inl e \<Rightarrow> Inl e | Inr x \<Rightarrow> f x)"

text \<open>\<open>str.isspace\<close> on ASCII: tab, newline, vertical tab, form feed, carriage return,
  the four separators 0x1c..0x1f and the blank.\<close>

definition isspace :: "char \<Rightarrow> bool" where
  "isspace c = (let n = (of_char c :: int) in (9 \<le> n \<and> n \<le> 13) \<or> (28 \<le> n \<and> n \<le> 32))"

definition isdigit :: "char \<Rightarrow> bool" where
  "isdigit c = (let n = (of_char c :: int) in 48 \<le> n \<and> n \<le> 57)"

text \<open>The regular-expression class \<open>\w\<close> on ASCII: letters, digits and the underscore.\<close>

definition isword :: "char \<Rightarrow> bool" where
  "isword c = (let n = (of_char c :: int) in
     (48 \<le> n \<and> n \<le> 57) \<or> (65 \<le> n \<and> n \<le> 90) \<or> (97 \<le> n \<and> n \<le> 122) \<or> n = 95)"

text \<open>\<open>s.strip()\<close>\<close>

definition strip :: "string \<Rightarrow> string" where
  "strip s = rev (dropWhile isspace (rev (dropWhile isspace s)))"

text \<open>\<open>s.lower()\<close> on ASCII.\<close>

definition lower_char :: "char \<Rightarrow> char" where
  "lower_char c = (let n = (of_char c :: int) in
     if 65 \<le> n \<and> n \<le> 90 then char_of (n + 32) else c)"

definition str_lower :: "string \<Rightarrow> string" where
  "str_lower s = map lower_char s"

text \<open>\<open>s.split(c)[0]\<close>: the text before the first \<open>c\<close>, the whole string when there is none.\<close>

definition split_first :: "char \<Rightarrow> string \<Rightarrow> string" where
  "split_first c s = takeWhile (\<lambda>x. x \<noteq> c) s"

text \<open>\<open>a, b = s.split(c, 1)\<close>: the unpacking raises ValueError when \<open>c\<close> does not occur.\<close>

definition split1 :: "char \<Rightarrow> string \<Rightarrow> py_error + (string \<times> string)" where
  "split1 c s = (if c \<in> set s
     then Inr (takeWhile (\<lambda>x. x \<noteq> c) s, tl (dropWhile (\<lambda>x. x \<noteq> c) s))
     else Inl ValueError)"

text \<open>\<open>s.replace(c, '')\<close>\<close>

definition remove_char :: "char \<Rightarrow> string \<Rightarrow> string" where
  "remove_char c s = filter (\<lambda>x. x \<noteq> c) s"

text \<open>\<open>parts = re.split(r'[ \t]+', line, 1)\<close>, returned as \<open>(parts[0], args)\<close> where
  \<open>args = parts[1] if len(parts) > 1 else ""\<close>.\<close>

definition isblank :: "char \<Rightarrow> bool" where
  "isblank c = (c = CHR '' '' \<or> c = CHR 0x09)"

definition split_mnemonic :: "string \<Rightarrow> string \<times> string" where
  "split_mnemonic line =
     (takeWhile (\<lambda>c. \<not> isblank c) line,
      dropWhile isblank (dropWhile (\<lambda>c. \<not> isblank c) line))"

text \<open>\<open>args[k]\<close> raises IndexError out of range (the source only uses indices 0, 1, 2).\<close>

definition arg :: "string list \<Rightarrow> nat \<Rightarrow> py_error + string" where
  "arg args k = (if k < length args then Inr (args ! k) else Inl IndexError)"

subsection \<open>Integer literals: \<open>int(s)\<close> and \<open>int(s, 0)\<close>\<close>

definition digit_val :: "char \<Rightarrow> int option" where
  "digit_val c = (let n = (of_char c :: int) in
     if 48 \<le> n \<and> n \<le> 57 then Some (n - 48)
     else if 97 \<le> n \<and> n \<le> 122 then Some (n - 87)
     else if 65 \<le> n \<and> n \<le> 90 then Some (n - 55)
     else None)"

text \<open>Digits of base \<open>b\<close>, single underscores allowed between digits only. The flag says
  whether the previous character was a digit.\<close>

fun parse_digits :: "int \<Rightarrow> bool \<Rightarrow> int \<Rightarrow> string \<Rightarrow> int option" where
  "parse_digits b prev acc [] = (if prev then Some acc else None)"
| "parse_digits b prev acc (c # s) =
     (if c = CHR ''_'' then (if prev then parse_digits b False acc s else None)
      else (case digit_val c of
              None \<Rightarrow> None
            | Some d \<Rightarrow> if d < b then parse_digits b True (acc * b + d) s else None))"

text \<open>CPython limits the conversion between integers and decimal text
  (\<open>sys.int_info.default_max_str_digits\<close>): \<open>int\<close> raises ValueError on a decimal literal
  of more than 4300 digits, leading zeros counted and underscores not, and the conversion
  of an integer to decimal text raises ValueError when the text has more than 4300 digits.
  Literals in base 2, 8 and 16 and hexadecimal formatting have no limit.\<close>

definition max_str_digits :: nat where
  "max_str_digits = 4300"

definition parse_decimal :: "string \<Rightarrow> int option" where
  "parse_decimal s =
     (if length (filter (\<lambda>c. c \<noteq> CHR ''_'') s) > max_str_digits then None
      else parse_digits 10 False 0 s)"

text \<open>The unsigned part of a literal. With base 0 the prefixes \<open>0x\<close>, \<open>0o\<close>, \<open>0b\<close>
  select the base (one underscore may follow the prefix), and a decimal literal with a
  leading zero is accepted only when its value is zero.\<close>

definition parse_magnitude :: "bool \<Rightarrow> string \<Rightarrow> int option" where
  "parse_magnitude base0 s =
     (if \<not> base0 then parse_decimal s
      else (case s of
              c0 # c1 # r \<Rightarrow>
                if c0 = CHR ''0'' \<and> lower_char c1 \<in> {CHR ''x'', CHR ''o'', CHR ''b''} then
                  parse_digits
                    (if lower_char c1 = CHR ''x'' then 16 else if lower_char c1 = CHR ''o'' then 8 else 2)
                    False 0 (case r of u # r' \<Rightarrow> if u = CHR ''_'' then r' else r | [] \<Rightarrow> r)
                else if c0 = CHR ''0'' then
                  (case parse_decimal s of
                     Some n \<Rightarrow> if n = 0 then Some 0 else None
                   | None \<Rightarrow> None)
                else parse_decimal s
            | _ \<Rightarrow> parse_decimal s))"

text \<open>\<open>int(s)\<close> is \<open>py_int False s\<close> and \<open>int(s, 0)\<close> is \<open>py_int True s\<close>; both raise
  ValueError on anything that is not a literal. Around the literal, \<open>int\<close> accepts the
  six whitespace characters of C only, not the separators 0x1c..0x1f.\<close>

definition c_isspace :: "char \<Rightarrow> bool" where
  "c_isspace c = (let n = (of_char c :: int) in (9 \<le> n \<and> n \<le> 13) \<or> n = 32)"

definition py_int :: "bool \<Rightarrow> string \<Rightarrow> py_error + int" where
  "py_int base0 s =
     (case rev (dropWhile c_isspace (rev (dropWhile c_isspace s))) of
        [] \<Rightarrow> Inl ValueError
      | c # r \<Rightarrow>
          (let neg = (c = CHR ''-'');
               body = (if c = CHR ''-'' \<or> c = CHR ''+'' then r else c # r)
           in case parse_magnitude base0 body of
                None \<Rightarrow> Inl ValueError
              | Some n \<Rightarrow> Inr (if neg then - n else n)))"

subsection \<open>Formatting integers\<close>

definition digit_char :: "int \<Rightarrow> char" where
  "digit_char d = (if d < 10 then char_of (48 + d) else char_of (87 + d))"

text \<open>The digits of a non-negative number in base \<open>b\<close>, most significant first.\<close>

function digits_of :: "int \<Rightarrow> int \<Rightarrow> string" where
  "digits_of b n =
     (if b < 2 \<or> n < b then [digit_char n]
      else digits_of b (n div b) @ [digit_char (n mod b)])"
  by pat_completeness auto
termination
proof (relation "measure (\<lambda>(b, n). nat n)")
  show "wf (measure (\<lambda>(b :: int, n :: int). nat n))"
    by simp
next
  fix b n :: int
  assume a: "\<not> (b < 2 \<or> n < b)"
  then have "n div b < n"
    by (intro int_div_less_self) auto
  with a show "((b, n div b), (b, n)) \<in> measure (\<lambda>(b, n). nat n)"
    by simp
qed

declare digits_of.simps [simp del]

text \<open>The decimal text of an integer.\<close>

definition int_digits :: "int \<Rightarrow> string" where
  "int_digits v = (if v < 0 then CHR ''-'' # digits_of 10 (- v) else digits_of 10 v)"

text \<open>\<open>f'{v}'\<close> for an integer \<open>v\<close>: ValueError when the text has more than 4300 digits.\<close>

definition str_int :: "int \<Rightarrow> py_error + string" where
  "str_int v =
     (if length (digits_of 10 \<bar>v\<bar>) > max_str_digits then Inl ValueError
      else Inr (int_digits v))"

text \<open>\<open>format(v, '08x')\<close>: lower-case hexadecimal, zero-padded to eight characters, the
  sign counted in the width.\<close>

definition format_08x :: "int \<Rightarrow> string" where
  "format_08x v =
     (if v < 0
      then (let h = digits_of 16 (- v) in CHR ''-'' # replicate (7 - length h) CHR ''0'' @ h)
      else (let h = digits_of 16 v in replicate (8 - length h) CHR ''0'' @ h))"

text \<open>\<open>get_bits(val, high, low)\<close> of the RISC-V assembler.\<close>

definition get_bits :: "int \<Rightarrow> nat \<Rightarrow> nat \<Rightarrow> int" where
  "get_bits val high low = (drop_bit low val) AND (push_bit (high - low + 1) 1 - 1)"


subsection \<open>Operand lists and branch targets\<close>

text \<open>
  \<open>re.split(r',|(?<=\))\s*(?=L)', args_str)\<close>, where the look-ahead \<open>L\<close> is a set of
  characters given as the predicate \<open>la\<close>. Scanning from the left, a comma is a separator;
  directly after a closing parenthesis, a (possibly empty) run of whitespace followed by a
  look-ahead character is a separator too. \<open>prev\<close> is the character before the current
  position and \<open>cur\<close> the current piece, reversed.
\<close>

function re_split_args :: "(char \<Rightarrow> bool) \<Rightarrow> char option \<Rightarrow> string \<Rightarrow> string \<Rightarrow> string list" where
  "re_split_args la prev cur [] = [rev cur]"
| "re_split_args la prev cur (c # s) =
     (if c = CHR '','' then rev cur # re_split_args la (Some c) [] s
      else if prev = Some (CHR '')'') then
        (case dropWhile isspace (c # s) of
           [] \<Rightarrow> re_split_args la (Some c) (c # cur) s
         | d # s' \<Rightarrow>
             if la d then rev cur # re_split_args la (Some d) [d] s'
             else re_split_args la (Some c) (c # cur) s)
      else re_split_args la (Some c) (c # cur) s)"
  by pat_completeness auto
termination
proof (relation "measure (\<lambda>(la, prev, cur, s). length s)")
  show "wf (measure (\<lambda>(la :: char \<Rightarrow> bool, prev :: char option, cur :: string, s :: string). length s))"
    by simp
next
  fix la :: "char \<Rightarrow> bool" and prev :: "char option" and cur s s' :: string and c d :: char
  assume "dropWhile isspace (c # s) = d # s'"
  then have "length (d # s') \<le> length (c # s)"
    by (metis length_dropWhile_le)
  then show "((la, Some d, [d], s'), (la, prev, cur, c # s))
      \<in> measure (\<lambda>(la, prev, cur, s). length s)"
    by simp
qed simp_all

text \<open>\<open>[a.strip() for a in re.split(..., args_str) if a.strip()]\<close>\<close>

definition split_args :: "(char \<Rightarrow> bool) \<Rightarrow> string \<Rightarrow> string list" where
  "split_args la args_str =
     filter (\<lambda>a. a \<noteq> []) (map strip (re_split_args la None [] args_str))"

type_synonym instr = "string \<times> string"
type_synonym label_table = "string \<Rightarrow> int option"

text \<open>\<open>self.labels[a] if a in self.labels else int(a, 0)\<close>\<close>

definition resolve_target :: "label_table \<Rightarrow> string \<Rightarrow> py_error + int" where
  "resolve_target labels a = (case labels a of Some t \<Rightarrow> Inr t | None \<Rightarrow> py_int True a)"

section \<open>The MIPS assembler (mips\_assembler.py)\<close>

definition REGISTERS :: "(string \<times> int) list" where
  "REGISTERS =
    [(''0'', 0), (''zero'', 0), (''at'', 1), (''v0'', 2), (''v1'', 3),
     (''a0'', 4), (''a1'', 5), (''a2'', 6), (''a3'', 7),
     (''t0'', 8), (''t1'', 9), (''t2'', 10), (''t3'', 11),
     (''t4'', 12), (''t5'', 13), (''t6'', 14), (''t7'', 15),
     (''s0'', 16), (''s1'', 17), (''s2'', 18), (''s3'', 19),
     (''s4'', 20), (''s5'', 21), (''s6'', 22), (''s7'', 23),
     (''t8'', 24), (''t9'', 25), (''k0'', 26), (''k1'', 27),
     (''gp'', 28), (''sp'', 29), (''fp'', 30), (''ra'', 31)]"

definition R_TYPE :: "(string \<times> int) list" where
  "R_TYPE =
    [(''add'', 0x20), (''sub'', 0x22), (''and'', 0x24), (''or'', 0x25),
     (''xor'', 0x26), (''nor'', 0x27), (''slt'', 0x2a), (''sll'', 0x00),
     (''srl'', 0x02), (''sra'', 0x03), (''jr'', 0x08), (''jalr'', 0x09)]"

definition MIPS_OPCODES :: "(string \<times> int) list" where
  "MIPS_OPCODES =
    [(''addi'', 0x08), (''slti'', 0x0a), (''andi'', 0x0c), (''ori'', 0x0d),
     (''xori'', 0x0e), (''lui'', 0x0f),
     (''beq'', 0x04), (''blez'', 0x06), (''bltz'', 0x01),
     (''j'', 0x02), (''jal'', 0x03),
     (''lb'', 0x20), (''lh'', 0x21), (''lw'', 0x23),
     (''sb'', 0x28), (''sh'', 0x29), (''sw'', 0x2b)]"

text \<open>\<open>parse_reg\<close>: the register table, else \<open>int(reg_str)\<close>.\<close>

definition mips_parse_reg :: "string \<Rightarrow> py_error + int" where
  "mips_parse_reg reg_str =
     (let r = strip (remove_char (CHR '','') (remove_char (CHR ''$'') reg_str))
      in case map_of REGISTERS r of Some n \<Rightarrow> Inr n | None \<Rightarrow> py_int False r)"

subsection \<open>\<open>MIPSAssembler.preprocess\<close>\<close>

text \<open>The pseudo-instruction chain of \<open>preprocess\<close>: the canonical instructions one
  statement appends to \<open>clean_lines\<close>.\<close>

definition mips_expand :: "string \<Rightarrow> string \<Rightarrow> py_error + instr list" where
  "mips_expand mnemonic args =
     (if mnemonic = ''nop'' then Inr [(''addi'', ''$0, $0, 0'')]
      else if mnemonic = ''li'' then
        bind_err (split1 (CHR '','') args) (\<lambda>(reg, val_s).
        bind_err (py_int True (strip val_s)) (\<lambda>val.
          if - 32768 \<le> val \<and> val \<le> 32767
          then bind_err (str_int val) (\<lambda>v. Inr [(''addi'', reg @ '', $0, '' @ v)])
          else
            (let upper = (drop_bit 16 val) AND 0xFFFF;
                 lower = val AND 0xFFFF
             in bind_err (str_int upper) (\<lambda>u.
                  if lower \<noteq> 0
                  then bind_err (str_int lower) (\<lambda>l.
                         Inr [(''lui'', reg @ '', '' @ u), (''ori'', reg @ '', '' @ reg @ '', '' @ l)])
                  else Inr [(''lui'', reg @ '', '' @ u)]))))
      else if mnemonic = ''mv'' then
        bind_err (split1 (CHR '','') args) (\<lambda>(rd, rs).
          Inr [(''addi'', rd @ '', '' @ rs @ '', 0'')])
      else if mnemonic = ''not'' then
        bind_err (split1 (CHR '','') args) (\<lambda>(rd, rs).
          Inr [(''nor'', rd @ '', '' @ rs @ '', $0'')])
      else if mnemonic = ''neg'' then
        bind_err (split1 (CHR '','') args) (\<lambda>(rd, rs).
          Inr [(''sub'', rd @ '', $0, '' @ rs)])
      else Inr [(mnemonic, args)])"

text \<open>One iteration of the loop of \<open>preprocess\<close> over the raw lines; the state is
  \<open>clean_lines\<close> and \<open>self.labels\<close>.\<close>

definition mips_preprocess_line ::
  "instr list \<times> label_table \<Rightarrow> string \<Rightarrow> py_error + (instr list \<times> label_table)" where
  "mips_preprocess_line st raw =
     (let (clean_lines, labels) = st;
          line = strip (split_first (CHR ''#'') raw)
      in if line = [] then Inr (clean_lines, labels)
         else
           (let has_label = (CHR '':'' \<in> set line);
                label_name = takeWhile (\<lambda>x. x \<noteq> CHR '':'') line;
                remaining = tl (dropWhile (\<lambda>x. x \<noteq> CHR '':'') line);
                labels' = (if has_label
                           then labels(strip label_name \<mapsto> int (length clean_lines))
                           else labels);
                line' = (if has_label then strip remaining else line)
            in if has_label \<and> line' = [] then Inr (clean_lines, labels')
               else
                 (let (m, args) = split_mnemonic line'
                  in bind_err (mips_expand (str_lower m) args)
                       (\<lambda>new. Inr (clean_lines @ new, labels')))))"

fun mips_preprocess_loop ::
  "instr list \<times> label_table \<Rightarrow> string list \<Rightarrow> py_error + (instr list \<times> label_table)" where
  "mips_preprocess_loop st [] = Inr st"
| "mips_preprocess_loop st (raw # lines) =
     bind_err (mips_preprocess_line st raw) (\<lambda>st'. mips_preprocess_loop st' lines)"

text \<open>\<open>preprocess\<close> on a fresh assembler (\<open>self.labels = {}\<close>): the canonical
  instruction list and the label table.\<close>

definition mips_preprocess :: "string list \<Rightarrow> py_error + (instr list \<times> label_table)" where
  "mips_preprocess lines = mips_preprocess_loop ([], Map.empty) lines"


subsection \<open>\<open>MIPSAssembler.assemble\<close>\<close>

text \<open>The operand list of a canonical instruction: the separator's look-ahead is \<open>$\<close>.\<close>

definition mips_split_args :: "string \<Rightarrow> string list" where
  "mips_split_args args_str = split_args (\<lambda>d. d = CHR ''$'') args_str"

text \<open>
  \<open>re.search(r'(-?\d+)\((\$\w+)\)', a)\<close>: \<open>mem_match_at\<close> is a match starting at the head
  of its argument and gives the two groups; \<open>re_search_mem\<close> takes the leftmost
  match. The quantifiers are greedy and no shorter choice can match, since the character
  after a maximal run is not in the run's class.
\<close>

definition mem_match_at :: "string \<Rightarrow> (string \<times> string) option" where
  "mem_match_at s =
     (let sgn = (case s of [] \<Rightarrow> [] | c # r \<Rightarrow> if c = CHR ''-'' then [c] else []);
          s1 = drop (length sgn) s;
          ds = takeWhile isdigit s1;
          s2 = dropWhile isdigit s1
      in if ds = [] then None
         else (case s2 of
                 p # q # s3 \<Rightarrow>
                   if p = CHR ''('' \<and> q = CHR ''$'' then
                     (let w = takeWhile isword s3; s4 = dropWhile isword s3
                      in if w = [] then None
                         else (case s4 of
                                 [] \<Rightarrow> None
                               | e # r \<Rightarrow> if e = CHR '')'' then Some (sgn @ ds, q # w) else None))
                   else None
               | _ \<Rightarrow> None))"

fun re_search_mem :: "string \<Rightarrow> (string \<times> string) option" where
  "re_search_mem [] = None"
| "re_search_mem (c # s) =
     (case mem_match_at (c # s) of Some g \<Rightarrow> Some g | None \<Rightarrow> re_search_mem s)"

text \<open>\<open>parse_reg(args[k])\<close> and \<open>int(args[k], 0)\<close>.\<close>

definition mips_reg_arg :: "string list \<Rightarrow> nat \<Rightarrow> py_error + int" where
  "mips_reg_arg args k = bind_err (arg args k) mips_parse_reg"

definition int_arg :: "string list \<Rightarrow> nat \<Rightarrow> py_error + int" where
  "int_arg args k = bind_err (arg args k) (py_int True)"

text \<open>\<open>self.labels[args[k]] if args[k] in self.labels else int(args[k], 0)\<close>\<close>

definition target_arg :: "label_table \<Rightarrow> string list \<Rightarrow> nat \<Rightarrow> py_error + int" where
  "target_arg labels args k = bind_err (arg args k) (resolve_target labels)"

text \<open>The three word layouts of the source, as it writes them:
  \<open>(opcode << 26) | (rs << 21) | (rt << 16) | (rd << 11) | (sa << 6) | funct\<close>,
  \<open>(opcode << 26) | (rs << 21) | (rt << 16) | (imm & 0xFFFF)\<close> and
  \<open>(opcode << 26) | (target & 0x03FFFFFF)\<close>.\<close>

definition mips_pack_r :: "int \<Rightarrow> int \<Rightarrow> int \<Rightarrow> int \<Rightarrow> int \<Rightarrow> int \<Rightarrow> int" where
  "mips_pack_r opcode rs rt rd sa funct =
     push_bit 26 opcode OR push_bit 21 rs OR push_bit 16 rt OR push_bit 11 rd
       OR push_bit 6 sa OR funct"

definition mips_pack_i :: "int \<Rightarrow> int \<Rightarrow> int \<Rightarrow> int \<Rightarrow> int" where
  "mips_pack_i opcode rs rt imm =
     push_bit 26 opcode OR push_bit 21 rs OR push_bit 16 rt OR (imm AND 0xFFFF)"

definition mips_pack_j :: "int \<Rightarrow> int \<Rightarrow> int" where
  "mips_pack_j opcode target = push_bit 26 opcode OR (target AND 0x03FFFFFF)"

text \<open>The body of the \<open>try\<close> block: the machine code of the canonical instruction at
  index \<open>i\<close>. A mnemonic outside the tables falls through the chain and leaves
  \<open>machine_code = 0\<close>.\<close>

definition mips_encode_r :: "string \<Rightarrow> int \<Rightarrow> string list \<Rightarrow> py_error + int" where
  "mips_encode_r mnemonic funct args =
     (if mnemonic \<in> set [''sll'', ''srl'', ''sra''] then
        bind_err (mips_reg_arg args 0) (\<lambda>rd.
        bind_err (mips_reg_arg args 1) (\<lambda>rt.
        bind_err (int_arg args 2) (\<lambda>sa.
          Inr (mips_pack_r 0 0 rt rd sa funct))))
      else if mnemonic = ''jr'' then
        bind_err (mips_reg_arg args 0) (\<lambda>rs.
          Inr (mips_pack_r 0 rs 0 0 0 funct))
      else if mnemonic = ''jalr'' then
        bind_err (if length args > 1 then mips_reg_arg args 0 else Inr 31) (\<lambda>rd.
        bind_err (if length args > 1 then mips_reg_arg args 1 else mips_reg_arg args 0) (\<lambda>rs.
          Inr (mips_pack_r 0 rs 0 rd 0 funct)))
      else
        bind_err (mips_reg_arg args 0) (\<lambda>rd.
        bind_err (mips_reg_arg args 1) (\<lambda>rs.
        bind_err (mips_reg_arg args 2) (\<lambda>rt.
          Inr (mips_pack_r 0 rs rt rd 0 funct)))))"

definition mips_encode_i ::
  "label_table \<Rightarrow> nat \<Rightarrow> string \<Rightarrow> int \<Rightarrow> string list \<Rightarrow> py_error + int" where
  "mips_encode_i labels i mnemonic opcode args =
     (if mnemonic = ''beq'' then
        bind_err (mips_reg_arg args 0) (\<lambda>rs.
        bind_err (mips_reg_arg args 1) (\<lambda>rt.
        bind_err (target_arg labels args 2) (\<lambda>target.
          (let offset = target - (int i + 1)
           in Inr (mips_pack_i opcode rs rt offset)))))
      else if mnemonic \<in> set [''blez'', ''bltz''] then
        bind_err (mips_reg_arg args 0) (\<lambda>rs.
        bind_err (target_arg labels args 1) (\<lambda>target.
          (let rt = 0; offset = target - (int i + 1)
           in Inr (mips_pack_i opcode rs rt offset))))
      else if mnemonic \<in> set [''lw'', ''sw'', ''lb'', ''sb'', ''lh'', ''sh''] then
        bind_err (mips_reg_arg args 0) (\<lambda>rt.
        bind_err (arg args 1) (\<lambda>a1.
          (case re_search_mem a1 of
             None \<Rightarrow> Inl AttributeError
           | Some (g1, g2) \<Rightarrow>
               bind_err (py_int True g1) (\<lambda>imm.
               bind_err (mips_parse_reg g2) (\<lambda>rs.
                 Inr (mips_pack_i opcode rs rt imm))))))
      else if mnemonic = ''lui'' then
        bind_err (mips_reg_arg args 0) (\<lambda>rt.
        bind_err (int_arg args 1) (\<lambda>imm.
          Inr (mips_pack_i opcode 0 rt imm)))
      else
        bind_err (mips_reg_arg args 0) (\<lambda>rt.
        bind_err (mips_reg_arg args 1) (\<lambda>rs.
        bind_err (int_arg args 2) (\<lambda>imm.
          Inr (mips_pack_i opcode rs rt imm)))))"

definition mips_encode :: "label_table \<Rightarrow> nat \<Rightarrow> instr \<Rightarrow> py_error + int" where
  "mips_encode labels i ins =
     (let (mnemonic, args_str) = ins;
          args = mips_split_args args_str
      in case map_of R_TYPE mnemonic of
           Some funct \<Rightarrow> mips_encode_r mnemonic funct args
         | None \<Rightarrow>
             if mnemonic \<in> set [''j'', ''jal''] then
               (case map_of MIPS_OPCODES mnemonic of
                  None \<Rightarrow> Inl KeyError
                | Some opcode \<Rightarrow>
                    bind_err (target_arg labels args 0) (\<lambda>target.
                      Inr (mips_pack_j opcode target)))
             else (case map_of MIPS_OPCODES mnemonic of
                     Some opcode \<Rightarrow> mips_encode_i labels i mnemonic opcode args
                   | None \<Rightarrow> Inr 0))"

text \<open>The loop \<open>for i, (mnemonic, args_str) in enumerate(code_lines)\<close>: any exception
  of the body is caught and becomes \<open>sys.exit(1)\<close>.\<close>

fun mips_assemble_loop ::
  "label_table \<Rightarrow> nat \<Rightarrow> instr list \<Rightarrow> string list \<Rightarrow> py_error + string list" where
  "mips_assemble_loop labels i [] binary_output = Inr binary_output"
| "mips_assemble_loop labels i (ins # rest) binary_output =
     (case mips_encode labels i ins of
        Inl e \<Rightarrow> Inl (SystemExit 1)
      | Inr machine_code \<Rightarrow>
          mips_assemble_loop labels (Suc i) rest (binary_output @ [format_08x machine_code]))"

text \<open>\<open>assemble\<close>, from the lines of the file (\<open>f.readlines()\<close>) to the list of
  hexadecimal words. An exception of \<open>preprocess\<close> is outside the \<open>try\<close> block and
  propagates.\<close>

definition mips_assemble :: "string list \<Rightarrow> py_error + string list" where
  "mips_assemble raw_lines =
     bind_err (mips_preprocess raw_lines) (\<lambda>(code_lines, labels).
       mips_assemble_loop labels 0 code_lines [])"

text \<open>\<open>write_coe\<close>: the text written to the output file.\<close>

definition coe_body :: "string list \<Rightarrow> (string \<Rightarrow> bool \<Rightarrow> string) \<Rightarrow> string" where
  "coe_body hex_list line =
     concat (map (\<lambda>(i, h). line h (i < length hex_list - 1)) (enumerate 0 hex_list))"

definition mips_write_coe :: "string list \<Rightarrow> string" where
  "mips_write_coe hex_list =
     ''; MIPS Instructions Generated by Python Assembler'' @ [CHR 0x0A] @
     ''memory_initialization_radix=16;'' @ [CHR 0x0A] @
     ''memory_initialization_vector='' @ [CHR 0x0A] @
     coe_body hex_list (\<lambda>h more. h @ (if more then '','' else '';'') @ [CHR 0x0A])"

text \<open>The \<open>__main__\<close> block on an existing input file with the given lines: the exit
  status of the process and the content of \<open>out.coe\<close> when it is written. An uncaught
  exception and \<open>sys.exit(1)\<close> both end the process with status 1 before \<open>write_coe\<close>.\<close>

definition mips_main :: "string list \<Rightarrow> int \<times> string option" where
  "mips_main raw_lines =
     (case mips_assemble raw_lines of
        Inl e \<Rightarrow> (1, None)
      | Inr results \<Rightarrow> (0, Some (mips_write_coe results)))"


section \<open>The RISC-V assembler (riscv\_assembler.py)\<close>

text \<open>\<open>REGS\<close>: the ABI names, then \<open>for i in range(32): REGS[f'x{i}'] = i\<close> (the
  conversion of the numbers below 32 has one or two digits and never raises).\<close>

definition REGS :: "(string \<times> int) list" where
  "REGS =
    [(''zero'', 0), (''ra'', 1), (''sp'', 2), (''gp'', 3), (''tp'', 4),
     (''t0'', 5), (''t1'', 6), (''t2'', 7),
     (''s0'', 8), (''fp'', 8), (''s1'', 9),
     (''a0'', 10), (''a1'', 11), (''a2'', 12), (''a3'', 13), (''a4'', 14),
     (''a5'', 15), (''a6'', 16), (''a7'', 17),
     (''s2'', 18), (''s3'', 19), (''s4'', 20), (''s5'', 21), (''s6'', 22),
     (''s7'', 23), (''s8'', 24), (''s9'', 25), (''s10'', 26), (''s11'', 27),
     (''t3'', 28), (''t4'', 29), (''t5'', 30), (''t6'', 31)]
    @ map (\<lambda>i. (CHR ''x'' # int_digits (int i), int i)) [0..<32]"

text \<open>An entry of \<open>OPCODES\<close>: the keys \<open>'op'\<close>, \<open>'f3'\<close> and \<open>'f7'\<close>, the last two
  absent from some entries.\<close>

record rv_info =
  info_op :: int
  info_f3 :: "int option"
  info_f7 :: "int option"

definition mk_info :: "int \<Rightarrow> int option \<Rightarrow> int option \<Rightarrow> rv_info" where
  "mk_info a b c = \<lparr>info_op = a, info_f3 = b, info_f7 = c\<rparr>"

definition RV_OPCODES :: "(string \<times> rv_info) list" where
  "RV_OPCODES =
    [(''add'', mk_info 0x33 (Some 0x0) (Some 0x00)),
     (''sub'', mk_info 0x33 (Some 0x0) (Some 0x20)),
     (''sll'', mk_info 0x33 (Some 0x1) (Some 0x00)),
     (''slt'', mk_info 0x33 (Some 0x2) (Some 0x00)),
     (''sltu'', mk_info 0x33 (Some 0x3) (Some 0x00)),
     (''xor'', mk_info 0x33 (Some 0x4) (Some 0x00)),
     (''srl'', mk_info 0x33 (Some 0x5) (Some 0x00)),
     (''sra'', mk_info 0x33 (Some 0x5) (Some 0x20)),
     (''or'', mk_info 0x33 (Some 0x6) (Some 0x00)),
     (''and'', mk_info 0x33 (Some 0x7) (Some 0x00)),
     (''addi'', mk_info 0x13 (Some 0x0) None),
     (''slti'', mk_info 0x13 (Some 0x2) None),
     (''andi'', mk_info 0x13 (Some 0x7) None),
     (''ori'', mk_info 0x13 (Some 0x6) None),
     (''xori'', mk_info 0x13 (Some 0x4) None),
     (''lw'', mk_info 0x03 (Some 0x2) None),
     (''lb'', mk_info 0x03 (Some 0x0) None),
     (''lh'', mk_info 0x03 (Some 0x1) None),
     (''jalr'', mk_info 0x67 (Some 0x0) None),
     (''sw'', mk_info 0x23 (Some 0x2) None),
     (''sb'', mk_info 0x23 (Some 0x0) None),
     (''sh'', mk_info 0x23 (Some 0x1) None),
     (''beq'', mk_info 0x63 (Some 0x0) None),
     (''bne'', mk_info 0x63 (Some 0x1) None),
     (''blt'', mk_info 0x63 (Some 0x4) None),
     (''bge'', mk_info 0x63 (Some 0x5) None),
     (''lui'', mk_info 0x37 None None),
     (''auipc'', mk_info 0x17 None None),
     (''jal'', mk_info 0x6f None None)]"

text \<open>\<open>info['f3']\<close> and \<open>info['f7']\<close> raise KeyError on an entry without the key.\<close>

definition key_of :: "int option \<Rightarrow> py_error + int" where
  "key_of v = (case v of Some x \<Rightarrow> Inr x | None \<Rightarrow> Inl KeyError)"

text \<open>\<open>parse_reg\<close>: the register table, else \<open>int(s.replace('x', ''))\<close>.\<close>

definition rv_parse_reg :: "string \<Rightarrow> py_error + int" where
  "rv_parse_reg s0 =
     (let s = strip (remove_char (CHR ''$'') (remove_char (CHR '','') s0))
      in case map_of REGS s of
           Some n \<Rightarrow> Inr n
         | None \<Rightarrow> py_int False (remove_char (CHR ''x'') s))"

subsection \<open>Pass 1 of \<open>RISCVAssembler.assemble\<close>: labels and pseudo-instructions\<close>

text \<open>\<open>[l.split('#')[0].strip() for l in f if l.split('#')[0].strip()]\<close>\<close>

definition rv_read_lines :: "string list \<Rightarrow> string list" where
  "rv_read_lines f =
     map (\<lambda>l. strip (split_first (CHR ''#'') l))
       (filter (\<lambda>l. strip (split_first (CHR ''#'') l) \<noteq> []) f)"

text \<open>The pseudo-instruction chain: the canonical instructions one statement appends to
  \<open>processed_code\<close>, each append followed by \<open>pc += 4\<close>.\<close>

definition rv_expand :: "string \<Rightarrow> string \<Rightarrow> py_error + instr list" where
  "rv_expand opn args =
     (if opn = ''nop'' then Inr [(''addi'', ''x0, x0, 0'')]
      else if opn = ''li'' then
        bind_err (split1 (CHR '','') args) (\<lambda>(rd, imm_s).
        bind_err (py_int True (strip imm_s)) (\<lambda>imm.
          (let upper = drop_bit 12 (imm + 0x800);
               lower = imm AND 0xFFF
           in bind_err (str_int upper) (\<lambda>u.
              bind_err (str_int lower) (\<lambda>l.
                Inr [(''lui'', rd @ '', '' @ u), (''addi'', rd @ '', '' @ rd @ '', '' @ l)])))))
      else if opn = ''mv'' then
        bind_err (split1 (CHR '','') args) (\<lambda>(rd, rs).
          Inr [(''addi'', rd @ '', '' @ rs @ '', 0'')])
      else if opn = ''not'' then
        bind_err (split1 (CHR '','') args) (\<lambda>(rd, rs).
          Inr [(''xori'', rd @ '', '' @ rs @ '', -1'')])
      else if opn = ''neg'' then
        bind_err (split1 (CHR '','') args) (\<lambda>(rd, rs).
          Inr [(''sub'', rd @ '', x0, '' @ rs)])
      else if opn = ''j'' then Inr [(''jal'', ''x0, '' @ args)]
      else Inr [(opn, args)])"

text \<open>One iteration of the first loop; the state is \<open>processed_code\<close>, \<open>pc\<close> and
  \<open>self.labels\<close>.\<close>

definition rv_pass1_line ::
  "instr list \<times> int \<times> label_table \<Rightarrow> string \<Rightarrow> py_error + (instr list \<times> int \<times> label_table)" where
  "rv_pass1_line st line =
     (let (processed_code, pc, labels) = st;
          has_label = (CHR '':'' \<in> set line);
          label = takeWhile (\<lambda>x. x \<noteq> CHR '':'') line;
          instr = tl (dropWhile (\<lambda>x. x \<noteq> CHR '':'') line);
          labels' = (if has_label then labels(strip label \<mapsto> pc) else labels);
          line' = (if has_label then strip instr else line)
      in if has_label \<and> line' = [] then Inr (processed_code, pc, labels')
         else
           (let (m, args) = split_mnemonic line'
            in bind_err (rv_expand (str_lower m) args)
                 (\<lambda>new. Inr (processed_code @ new, pc + 4 * int (length new), labels'))))"

fun rv_pass1_loop ::
  "instr list \<times> int \<times> label_table \<Rightarrow> string list \<Rightarrow> py_error + (instr list \<times> int \<times> label_table)" where
  "rv_pass1_loop st [] = Inr st"
| "rv_pass1_loop st (line # lines) =
     bind_err (rv_pass1_line st line) (\<lambda>st'. rv_pass1_loop st' lines)"

text \<open>Pass 1 on a fresh assembler, from the lines of the file.\<close>

definition rv_pass1 :: "string list \<Rightarrow> py_error + (instr list \<times> int \<times> label_table)" where
  "rv_pass1 f = rv_pass1_loop ([], 0, Map.empty) (rv_read_lines f)"


subsection \<open>Pass 2 of \<open>RISCVAssembler.assemble\<close>: encoding\<close>

text \<open>The operand list: the separator's look-ahead is one of \<open>x a t s z r f g p\<close>.\<close>

definition rv_split_args :: "string \<Rightarrow> string list" where
  "rv_split_args args_s = split_args (\<lambda>d. d \<in> set ''xatszrfgp'') args_s"

definition rv_reg_arg :: "string list \<Rightarrow> nat \<Rightarrow> py_error + int" where
  "rv_reg_arg args k = bind_err (arg args k) rv_parse_reg"

text \<open>\<open>imm_s, rs1_s = a.split('(')\<close>: the unpacking needs exactly one parenthesis.\<close>

definition split_paren :: "string \<Rightarrow> py_error + (string \<times> string)" where
  "split_paren a =
     (if length (filter (\<lambda>x. x = CHR ''('') a) = 1
      then Inr (takeWhile (\<lambda>x. x \<noteq> CHR ''('') a, tl (dropWhile (\<lambda>x. x \<noteq> CHR ''('') a))
      else Inl ValueError)"

text \<open>The six word layouts, as the source writes them.\<close>

definition rv_pack_r :: "int \<Rightarrow> int \<Rightarrow> int \<Rightarrow> int \<Rightarrow> int \<Rightarrow> int \<Rightarrow> int" where
  "rv_pack_r f7 rs2 rs1 f3 rd opc =
     push_bit 25 f7 OR push_bit 20 rs2 OR push_bit 15 rs1 OR push_bit 12 f3
       OR push_bit 7 rd OR opc"

definition rv_pack_i :: "int \<Rightarrow> int \<Rightarrow> int \<Rightarrow> int \<Rightarrow> int \<Rightarrow> int" where
  "rv_pack_i imm rs1 f3 rd opc =
     push_bit 20 (imm AND 0xFFF) OR push_bit 15 rs1 OR push_bit 12 f3
       OR push_bit 7 rd OR opc"

definition rv_pack_s :: "int \<Rightarrow> int \<Rightarrow> int \<Rightarrow> int \<Rightarrow> int \<Rightarrow> int" where
  "rv_pack_s imm rs2 rs1 f3 opc =
     (let imm_11_5 = get_bits imm 11 5;
          imm_4_0 = get_bits imm 4 0
      in push_bit 25 imm_11_5 OR push_bit 20 rs2 OR push_bit 15 rs1 OR push_bit 12 f3
           OR push_bit 7 imm_4_0 OR opc)"

definition rv_pack_b :: "int \<Rightarrow> int \<Rightarrow> int \<Rightarrow> int \<Rightarrow> int \<Rightarrow> int" where
  "rv_pack_b off rs2 rs1 f3 opc =
     (let b12 = get_bits off 12 12;
          b11 = get_bits off 11 11;
          b10_5 = get_bits off 10 5;
          b4_1 = get_bits off 4 1
      in push_bit 31 b12 OR push_bit 25 b10_5 OR push_bit 20 rs2 OR push_bit 15 rs1
           OR push_bit 12 f3 OR push_bit 8 b4_1 OR push_bit 7 b11 OR opc)"

definition rv_pack_u :: "int \<Rightarrow> int \<Rightarrow> int \<Rightarrow> int" where
  "rv_pack_u imm rd opc = push_bit 12 (imm AND 0xFFFFF) OR push_bit 7 rd OR opc"

definition rv_pack_j :: "int \<Rightarrow> int \<Rightarrow> int \<Rightarrow> int" where
  "rv_pack_j off rd opc =
     (let j20 = get_bits off 20 20;
          j19_12 = get_bits off 19 12;
          j11 = get_bits off 11 11;
          j10_1 = get_bits off 10 1
      in push_bit 31 j20 OR push_bit 21 j10_1 OR push_bit 20 j11 OR push_bit 12 j19_12
           OR push_bit 7 rd OR opc)"

text \<open>The body of the second loop after \<open>info = OPCODES[op]\<close>: the value of \<open>code\<close> for
  the instruction at address \<open>pc\<close>.\<close>

definition rv_encode_info ::
  "label_table \<Rightarrow> int \<Rightarrow> rv_info \<Rightarrow> string list \<Rightarrow> py_error + int" where
  "rv_encode_info labels pc info args =
     (if info_op info = 0x33 then
        bind_err (rv_reg_arg args 0) (\<lambda>rd.
        bind_err (rv_reg_arg args 1) (\<lambda>rs1.
        bind_err (rv_reg_arg args 2) (\<lambda>rs2.
        bind_err (key_of (info_f7 info)) (\<lambda>f7.
        bind_err (key_of (info_f3 info)) (\<lambda>f3.
          Inr (rv_pack_r f7 rs2 rs1 f3 rd (info_op info)))))))
      else if info_op info \<in> set [0x13, 0x03, 0x67] then
        bind_err (arg args 1) (\<lambda>a1.
        bind_err
          (if CHR ''('' \<in> set a1 then
             bind_err (rv_reg_arg args 0) (\<lambda>rd.
             bind_err (split_paren a1) (\<lambda>(imm_s, rs1_s).
             bind_err (py_int True imm_s) (\<lambda>imm.
             bind_err (rv_parse_reg (remove_char (CHR '')'') rs1_s)) (\<lambda>rs1.
               Inr (rd, rs1, imm)))))
           else
             bind_err (rv_reg_arg args 0) (\<lambda>rd.
             bind_err (rv_reg_arg args 1) (\<lambda>rs1.
             bind_err (int_arg args 2) (\<lambda>imm.
               Inr (rd, rs1, imm)))))
          (\<lambda>(rd, rs1, imm).
             Inr (rv_pack_i imm rs1 (case info_f3 info of Some v \<Rightarrow> v | None \<Rightarrow> 0) rd
                    (info_op info))))
      else if info_op info = 0x23 then
        bind_err (rv_reg_arg args 0) (\<lambda>rs2.
        bind_err (arg args 1) (\<lambda>a1.
        bind_err (split_paren a1) (\<lambda>(imm_s, rs1_s).
        bind_err (py_int True imm_s) (\<lambda>imm.
        bind_err (rv_parse_reg (remove_char (CHR '')'') rs1_s)) (\<lambda>rs1.
        bind_err (key_of (info_f3 info)) (\<lambda>f3.
          Inr (rv_pack_s imm rs2 rs1 f3 (info_op info))))))))
      else if info_op info = 0x63 then
        bind_err (rv_reg_arg args 0) (\<lambda>rs1.
        bind_err (rv_reg_arg args 1) (\<lambda>rs2.
        bind_err (target_arg labels args 2) (\<lambda>target.
        bind_err (key_of (info_f3 info)) (\<lambda>f3.
          (let off = target - pc
           in Inr (rv_pack_b off rs2 rs1 f3 (info_op info)))))))
      else if info_op info \<in> set [0x37, 0x17] then
        bind_err (rv_reg_arg args 0) (\<lambda>rd.
        bind_err (int_arg args 1) (\<lambda>imm.
          Inr (rv_pack_u imm rd (info_op info))))
      else if info_op info = 0x6f then
        bind_err (rv_reg_arg args 0) (\<lambda>rd.
        bind_err (target_arg labels args 1) (\<lambda>target.
          (let off = target - pc
           in Inr (rv_pack_j off rd (info_op info)))))
      else Inr 0)"

text \<open>One iteration of the second loop up to \<open>code\<close>; \<open>OPCODES[op]\<close> raises KeyError on
  a mnemonic outside the table.\<close>

definition rv_encode :: "label_table \<Rightarrow> int \<Rightarrow> instr \<Rightarrow> py_error + int" where
  "rv_encode labels pc ins =
     (let (opn, args_s) = ins;
          args = rv_split_args args_s
      in case map_of RV_OPCODES opn of
           None \<Rightarrow> Inl KeyError
         | Some info \<Rightarrow> rv_encode_info labels pc info args)"

text \<open>The second loop: \<open>binary_res.append(format(code & 0xFFFFFFFF, '08x')); pc += 4\<close>.
  No exception is caught.\<close>

fun rv_pass2_loop ::
  "label_table \<Rightarrow> int \<Rightarrow> instr list \<Rightarrow> string list \<Rightarrow> py_error + string list" where
  "rv_pass2_loop labels pc [] binary_res = Inr binary_res"
| "rv_pass2_loop labels pc (ins # rest) binary_res =
     (case rv_encode labels pc ins of
        Inl e \<Rightarrow> Inl e
      | Inr code \<Rightarrow>
          rv_pass2_loop labels (pc + 4) rest
            (binary_res @ [format_08x (code AND 0xFFFFFFFF)]))"

definition rv_assemble :: "string list \<Rightarrow> py_error + string list" where
  "rv_assemble f =
     bind_err (rv_pass1 f) (\<lambda>(processed_code, pc, labels).
       rv_pass2_loop labels 0 processed_code [])"

text \<open>\<open>write_coe\<close>: the text written to the output file.\<close>

definition rv_write_coe :: "string list \<Rightarrow> string" where
  "rv_write_coe hex_list =
     ''memory_initialization_radix=16;'' @ [CHR 0x0A] @
     ''memory_initialization_vector='' @ [CHR 0x0A] @
     coe_body hex_list (\<lambda>h more. h @ (if more then '','' @ [CHR 0x0A] else '';''))"

text \<open>The \<open>__main__\<close> block on an existing input file with the given lines: the exit
  status and the content of \<open>riscv_out.coe\<close> when it is written. An uncaught exception
  ends the process with status 1 before \<open>write_coe\<close>.\<close>

definition rv_main :: "string list \<Rightarrow> int \<times> string option" where
  "rv_main f =
     (case rv_assemble f of
        Inl e \<Rightarrow> (1, None)
      | Inr res \<Rightarrow> (0, Some (rv_write_coe res)))"


text \<open>A field of \<open>k\<close> bits holds the values \<open>0 .. 2^k - 1\<close>.\<close>

definition fld :: "nat \<Rightarrow> int \<Rightarrow> bool" where
  "fld k x = (0 \<le> x \<and> x < 2 ^ k)"

text \<open>
  The decoders follow the words of the spec; the source only packs. Each reads the fields
  at the bit positions that section 4.4 of the spec documents, with the source's own
  \<open>get_bits\<close>.
  MIPS R-type: opcode[31:26], rs[25:21], rt[20:16], rd[15:11], shamt[10:6], funct[5:0];
  MIPS I-type: opcode[31:26], rs[25:21], rt[20:16], immediate[15:0];
  MIPS J-type: opcode[31:26], target[25:0].
\<close>

definition spec_unpack_mips_r :: "int \<Rightarrow> int \<times> int \<times> int \<times> int \<times> int \<times> int" where
  "spec_unpack_mips_r w =
     (get_bits w 31 26, get_bits w 25 21, get_bits w 20 16, get_bits w 15 11,
      get_bits w 10 6, get_bits w 5 0)"

definition spec_unpack_mips_i :: "int \<Rightarrow> int \<times> int \<times> int \<times> int" where
  "spec_unpack_mips_i w =
     (get_bits w 31 26, get_bits w 25 21, get_bits w 20 16, get_bits w 15 0)"

definition spec_unpack_mips_j :: "int \<Rightarrow> int \<times> int" where
  "spec_unpack_mips_j w = (get_bits w 31 26, get_bits w 25 0)"

text \<open>
  The RISC-V decoders, from the words of the spec as well.
  R-type: funct7[31:25], rs2[24:20], rs1[19:15], funct3[14:12], rd[11:7], opcode[6:0];
  I-type: immediate[31:20] in place of funct7 and rs2;
  S-type: immediate bits 11:5 at [31:25] and bits 4:0 at [11:7];
  B-type: [31] = bit 12, [30:25] = bits 10:5, [11:8] = bits 4:1, [7] = bit 11;
  U-type: immediate[31:12];
  J-type: [31] = bit 20, [30:21] = bits 10:1, [20] = bit 11, [19:12] = bits 19:12.
  The results list the fields in the order of the packer's arguments.
\<close>

definition spec_unpack_rv_r :: "int \<Rightarrow> int \<times> int \<times> int \<times> int \<times> int \<times> int" where
  "spec_unpack_rv_r w =
     (get_bits w 31 25, get_bits w 24 20, get_bits w 19 15, get_bits w 14 12,
      get_bits w 11 7, get_bits w 6 0)"

definition spec_unpack_rv_i :: "int \<Rightarrow> int \<times> int \<times> int \<times> int \<times> int" where
  "spec_unpack_rv_i w =
     (get_bits w 31 20, get_bits w 19 15, get_bits w 14 12, get_bits w 11 7, get_bits w 6 0)"

definition spec_unpack_rv_s :: "int \<Rightarrow> int \<times> int \<times> int \<times> int \<times> int" where
  "spec_unpack_rv_s w =
     (push_bit 5 (get_bits w 31 25) OR get_bits w 11 7,
      get_bits w 24 20, get_bits w 19 15, get_bits w 14 12, get_bits w 6 0)"

definition spec_unpack_rv_b :: "int \<Rightarrow> int \<times> int \<times> int \<times> int \<times> int" where
  "spec_unpack_rv_b w =
     (push_bit 12 (get_bits w 31 31) OR push_bit 11 (get_bits w 7 7)
        OR push_bit 5 (get_bits w 30 25) OR push_bit 1 (get_bits w 11 8),
      get_bits w 24 20, get_bits w 19 15, get_bits w 14 12, get_bits w 6 0)"

definition spec_unpack_rv_u :: "int \<Rightarrow> int \<times> int \<times> int" where
  "spec_unpack_rv_u w = (get_bits w 31 12, get_bits w 11 7, get_bits w 6 0)"

definition spec_unpack_rv_j :: "int \<Rightarrow> int \<times> int \<times> int" where
  "spec_unpack_rv_j w =
     (push_bit 20 (get_bits w 31 31) OR push_bit 12 (get_bits w 19 12)
        OR push_bit 11 (get_bits w 20 20) OR push_bit 1 (get_bits w 30 21),
      get_bits w 11 7, get_bits w 6 0)"

section \<open>Auxiliary notions for stating the properties\<close>

text \<open>What one source line contributes, read off \<open>mips_preprocess_line\<close>: the label it
  defines (if any) and the canonical instructions it appends.\<close>

definition mips_line_label :: "string \<Rightarrow> string option" where
  "mips_line_label raw =
     (let line = strip (split_first (CHR ''#'') raw)
      in if CHR '':'' \<in> set line
         then Some (strip (takeWhile (\<lambda>x. x \<noteq> CHR '':'') line))
         else None)"

definition mips_line_instrs :: "string \<Rightarrow> py_error + instr list" where
  "mips_line_instrs raw =
     (let line = strip (split_first (CHR ''#'') raw);
          line' = (if CHR '':'' \<in> set line
                   then strip (tl (dropWhile (\<lambda>x. x \<noteq> CHR '':'') line))
                   else line)
      in if line' = [] then Inr []
         else (let (m, args) = split_mnemonic line' in mips_expand (str_lower m) args))"

text \<open>The same for a line of the RISC-V assembler, which is already stripped of its
  comment and surrounding whitespace by \<open>rv_read_lines\<close>.\<close>

definition rv_line_label :: "string \<Rightarrow> string option" where
  "rv_line_label line =
     (if CHR '':'' \<in> set line
      then Some (strip (takeWhile (\<lambda>x. x \<noteq> CHR '':'') line))
      else None)"

definition rv_line_instrs :: "string \<Rightarrow> py_error + instr list" where
  "rv_line_instrs line =
     (let line' = (if CHR '':'' \<in> set line
                   then strip (tl (dropWhile (\<lambda>x. x \<noteq> CHR '':'') line))
                   else line)
      in if CHR '':'' \<in> set line \<and> line' = [] then Inr []
         else (let (m, args) = split_mnemonic line' in rv_expand (str_lower m) args))"

text \<open>The canonical instruction list of a program: the expansions of its lines, in order;
  the first line that raises decides the error.\<close>

fun program_instrs :: "(string \<Rightarrow> py_error + instr list) \<Rightarrow> string list \<Rightarrow> py_error + instr list" where
  "program_instrs li [] = Inr []"
| "program_instrs li (l # ls) =
     bind_err (li l) (\<lambda>xs. bind_err (program_instrs li ls) (\<lambda>ys. Inr (xs @ ys)))"

text \<open>The address a program's label table gives a name (\<open>None\<close> when the name is not in
  the table or pass 1 raises).\<close>

definition mips_label_of :: "string list \<Rightarrow> string \<Rightarrow> int option" where
  "mips_label_of raw_lines n =
     (case mips_preprocess raw_lines of Inl e \<Rightarrow> None | Inr (code_lines, labels) \<Rightarrow> labels n)"

definition rv_label_of :: "string list \<Rightarrow> string \<Rightarrow> int option" where
  "rv_label_of f n =
     (case rv_pass1 f of Inl e \<Rightarrow> None | Inr (processed_code, pc, labels) \<Rightarrow> labels n)"

text \<open>The position of the target operand in the operand list of a branch or jump, as the
  encoders index it: MIPS \<open>j\<close>/\<open>jal\<close> use \<open>args[0]\<close>, \<open>beq\<close> uses \<open>args[2]\<close>, \<open>blez\<close>/\<open>bltz\<close>
  use \<open>args[1]\<close>; the RISC-V branches (opcode 0x63) use \<open>args[2]\<close> and \<open>jal\<close> (opcode 0x6f)
  uses \<open>args[1]\<close>.\<close>

definition mips_target_index :: "string \<Rightarrow> nat option" where
  "mips_target_index mnemonic =
     (if mnemonic \<in> set [''j'', ''jal''] then Some 0
      else if mnemonic = ''beq'' then Some 2
      else if mnemonic \<in> set [''blez'', ''bltz''] then Some 1
      else None)"

definition rv_target_index :: "string \<Rightarrow> nat option" where
  "rv_target_index opn =
     (case map_of RV_OPCODES opn of
        None \<Rightarrow> None
      | Some info \<Rightarrow>
          if info_op info = 0x63 then Some 2
          else if info_op info = 0x6f then Some 1
          else None)"

text \<open>A source line without a statement: blank or comment-only, or a label definition with
  nothing after the colon.\<close>

definition no_statement :: "string \<Rightarrow> bool" where
  "no_statement raw =
     (let line = strip (split_first (CHR ''#'') raw)
      in line = [] \<or>
         (CHR '':'' \<in> set line \<and> strip (tl (dropWhile (\<lambda>x. x \<noteq> CHR '':'') line)) = []))"

section \<open>Properties\<close>

subsection \<open>Basic facts\<close>

lemma bind_err_simps:
  "bind_err (Inl e) f = Inl e"
  "bind_err (Inr x) f = f x"
  by (simp_all add: bind_err_def)

lemma R_TYPE_jalr: "map_of R_TYPE ''jalr'' = Some 0x09"
  by (simp add: R_TYPE_def)

subsection \<open>Bit fields\<close>

lemma get_bits_eq: "get_bits v h l = take_bit (h - l + 1) (drop_bit l v)"
  by (simp add: get_bits_def take_bit_eq_mask mask_eq_exp_minus_1 push_bit_eq_mult)

lemma and_fff: "(x :: int) AND 0xFFF = take_bit 12 x"
  by (simp add: take_bit_eq_mask mask_eq_exp_minus_1)

lemma and_ffff: "(x :: int) AND 0xFFFF = take_bit 16 x"
  by (simp add: take_bit_eq_mask mask_eq_exp_minus_1)

lemma and_fffff: "(x :: int) AND 0xFFFFF = take_bit 20 x"
  by (simp add: take_bit_eq_mask mask_eq_exp_minus_1)

lemma and_3ffffff: "(x :: int) AND 0x03FFFFFF = take_bit 26 x"
  by (simp add: take_bit_eq_mask mask_eq_exp_minus_1)

lemma and_ffffffff: "(x :: int) AND 0xFFFFFFFF = take_bit 32 x"
  by (simp add: take_bit_eq_mask mask_eq_exp_minus_1)

lemma fld_bit: "fld k x \<Longrightarrow> bit x n \<Longrightarrow> n < k"
proof -
  assume a: "fld k x" "bit x n"
  then have "take_bit k x = x"
    by (simp add: fld_def take_bit_int_eq_self)
  then have "bit (take_bit k x) n"
    using a by simp
  then show "n < k"
    by (simp add: bit_take_bit_iff)
qed

lemma fld_take_bit: "fld k x \<longleftrightarrow> take_bit k x = x"
  by (auto simp: fld_def take_bit_int_eq_self_iff)

lemma bit_get_bits: "bit (get_bits v h l) n \<longleftrightarrow> n < h - l + 1 \<and> bit v (l + n)"
  by (simp add: get_bits_eq bit_simps)

lemma bit_shl: "bit (push_bit m (a :: int)) n \<longleftrightarrow> m \<le> n \<and> bit a (n - m)"
  by (simp add: bit_push_bit_iff)

lemma rv_b_bits:
  assumes "fld 5 rs2" "fld 5 rs1" "fld 3 f3" "fld 7 opc"
  shows "get_bits (rv_pack_b off rs2 rs1 f3 opc) 31 31 = get_bits off 12 12"
    and "get_bits (rv_pack_b off rs2 rs1 f3 opc) 7 7 = get_bits off 11 11"
    and "get_bits (rv_pack_b off rs2 rs1 f3 opc) 30 25 = get_bits off 10 5"
    and "get_bits (rv_pack_b off rs2 rs1 f3 opc) 11 8 = get_bits off 4 1"
  using assms
  by (intro bit_eqI; auto simp: bit_get_bits rv_pack_b_def Let_def bit_or_iff bit_push_bit_iff dest: fld_bit)+

lemma b_imm_join_bit:
  "bit (push_bit 12 (get_bits off 12 12) OR push_bit 11 (get_bits off 11 11)
     OR push_bit 5 (get_bits off 10 5) OR push_bit 1 (get_bits off 4 1)) n
   \<longleftrightarrow> 1 \<le> n \<and> n < 13 \<and> bit off n"
proof -
  have c: "n = 0 \<or> (1 \<le> n \<and> n < 5) \<or> (5 \<le> n \<and> n < 11) \<or> n = 11 \<or> n = 12 \<or> 13 \<le> n"
    by arith
  show ?thesis
    apply (simp only: bit_or_iff bit_shl bit_get_bits)
    using c
    apply (elim disjE)
         apply auto
    done
qed

lemma b_imm_join:
  "even off \<Longrightarrow>
   push_bit 12 (get_bits off 12 12) OR push_bit 11 (get_bits off 11 11)
     OR push_bit 5 (get_bits off 10 5) OR push_bit 1 (get_bits off 4 1)
   = take_bit 13 off"
proof (rule bit_eqI)
  fix n :: nat
  assume e: "even off"
  have "\<not> bit off 0" using e by (simp add: bit_0)
  then have "(1 \<le> n \<and> n < 13 \<and> bit off n) \<longleftrightarrow> (n < 13 \<and> bit off n)"
    by (cases "n = 0") auto
  then show "bit (push_bit 12 (get_bits off 12 12) OR push_bit 11 (get_bits off 11 11)
     OR push_bit 5 (get_bits off 10 5) OR push_bit 1 (get_bits off 4 1)) n
     = bit (take_bit 13 off) n"
    by (simp only: b_imm_join_bit bit_take_bit_iff)
qed

lemma mips_r_roundtrip:
  assumes "fld 6 opcode" "fld 5 rs" "fld 5 rt" "fld 5 rd" "fld 5 sa" "fld 6 funct"
  shows "spec_unpack_mips_r (mips_pack_r opcode rs rt rd sa funct)
         = (opcode, rs, rt, rd, sa, funct)"
proof -
  let ?w = "mips_pack_r opcode rs rt rd sa funct"
  have "get_bits ?w 31 26 = opcode"
    using assms by (intro bit_eqI) (auto simp: get_bits_eq mips_pack_r_def bit_simps dest: fld_bit)
  moreover have "get_bits ?w 25 21 = rs"
    using assms by (intro bit_eqI) (auto simp: get_bits_eq mips_pack_r_def bit_simps dest: fld_bit)
  moreover have "get_bits ?w 20 16 = rt"
    using assms by (intro bit_eqI) (auto simp: get_bits_eq mips_pack_r_def bit_simps dest: fld_bit)
  moreover have "get_bits ?w 15 11 = rd"
    using assms by (intro bit_eqI) (auto simp: get_bits_eq mips_pack_r_def bit_simps dest: fld_bit)
  moreover have "get_bits ?w 10 6 = sa"
    using assms by (intro bit_eqI) (auto simp: get_bits_eq mips_pack_r_def bit_simps dest: fld_bit)
  moreover have "get_bits ?w 5 0 = funct"
    using assms by (intro bit_eqI) (auto simp: get_bits_eq mips_pack_r_def bit_simps dest: fld_bit)
  ultimately show ?thesis
    by (simp add: spec_unpack_mips_r_def)
qed

lemma mips_i_roundtrip:
  assumes "fld 6 opcode" "fld 5 rs" "fld 5 rt"
  shows "spec_unpack_mips_i (mips_pack_i opcode rs rt imm)
         = (opcode, rs, rt, take_bit 16 imm)"
proof -
  let ?w = "mips_pack_i opcode rs rt imm"
  have "get_bits ?w 31 26 = opcode"
    using assms by (intro bit_eqI) (auto simp: get_bits_eq mips_pack_i_def and_ffff bit_simps dest: fld_bit)
  moreover have "get_bits ?w 25 21 = rs"
    using assms by (intro bit_eqI) (auto simp: get_bits_eq mips_pack_i_def and_ffff bit_simps dest: fld_bit)
  moreover have "get_bits ?w 20 16 = rt"
    using assms by (intro bit_eqI) (auto simp: get_bits_eq mips_pack_i_def and_ffff bit_simps dest: fld_bit)
  moreover have "get_bits ?w 15 0 = take_bit 16 imm"
    using assms by (intro bit_eqI) (auto simp: get_bits_eq mips_pack_i_def and_ffff bit_simps dest: fld_bit)
  ultimately show ?thesis
    by (simp add: spec_unpack_mips_i_def)
qed

lemma mips_j_roundtrip:
  assumes "fld 6 opcode"
  shows "spec_unpack_mips_j (mips_pack_j opcode target) = (opcode, take_bit 26 target)"
proof -
  let ?w = "mips_pack_j opcode target"
  have "get_bits ?w 31 26 = opcode"
    using assms by (intro bit_eqI) (auto simp: get_bits_eq mips_pack_j_def and_3ffffff bit_simps dest: fld_bit)
  moreover have "get_bits ?w 25 0 = take_bit 26 target"
    using assms by (intro bit_eqI) (auto simp: get_bits_eq mips_pack_j_def and_3ffffff bit_simps dest: fld_bit)
  ultimately show ?thesis
    by (simp add: spec_unpack_mips_j_def)
qed

lemma rv_r_roundtrip:
  assumes "fld 7 f7" "fld 5 rs2" "fld 5 rs1" "fld 3 f3" "fld 5 rd" "fld 7 opc"
  shows "spec_unpack_rv_r (rv_pack_r f7 rs2 rs1 f3 rd opc) = (f7, rs2, rs1, f3, rd, opc)"
proof -
  let ?w = "rv_pack_r f7 rs2 rs1 f3 rd opc"
  have "get_bits ?w 31 25 = f7"
    using assms by (intro bit_eqI) (auto simp: get_bits_eq rv_pack_r_def bit_simps dest: fld_bit)
  moreover have "get_bits ?w 24 20 = rs2"
    using assms by (intro bit_eqI) (auto simp: get_bits_eq rv_pack_r_def bit_simps dest: fld_bit)
  moreover have "get_bits ?w 19 15 = rs1"
    using assms by (intro bit_eqI) (auto simp: get_bits_eq rv_pack_r_def bit_simps dest: fld_bit)
  moreover have "get_bits ?w 14 12 = f3"
    using assms by (intro bit_eqI) (auto simp: get_bits_eq rv_pack_r_def bit_simps dest: fld_bit)
  moreover have "get_bits ?w 11 7 = rd"
    using assms by (intro bit_eqI) (auto simp: get_bits_eq rv_pack_r_def bit_simps dest: fld_bit)
  moreover have "get_bits ?w 6 0 = opc"
    using assms by (intro bit_eqI) (auto simp: get_bits_eq rv_pack_r_def bit_simps dest: fld_bit)
  ultimately show ?thesis
    by (simp add: spec_unpack_rv_r_def)
qed

lemma rv_i_roundtrip:
  assumes "fld 5 rs1" "fld 3 f3" "fld 5 rd" "fld 7 opc"
  shows "spec_unpack_rv_i (rv_pack_i imm rs1 f3 rd opc) = (take_bit 12 imm, rs1, f3, rd, opc)"
proof -
  let ?w = "rv_pack_i imm rs1 f3 rd opc"
  have "get_bits ?w 31 20 = take_bit 12 imm"
    using assms by (intro bit_eqI) (auto simp: get_bits_eq rv_pack_i_def and_fff bit_simps dest: fld_bit)
  moreover have "get_bits ?w 19 15 = rs1"
    using assms by (intro bit_eqI) (auto simp: get_bits_eq rv_pack_i_def and_fff bit_simps dest: fld_bit)
  moreover have "get_bits ?w 14 12 = f3"
    using assms by (intro bit_eqI) (auto simp: get_bits_eq rv_pack_i_def and_fff bit_simps dest: fld_bit)
  moreover have "get_bits ?w 11 7 = rd"
    using assms by (intro bit_eqI) (auto simp: get_bits_eq rv_pack_i_def and_fff bit_simps dest: fld_bit)
  moreover have "get_bits ?w 6 0 = opc"
    using assms by (intro bit_eqI) (auto simp: get_bits_eq rv_pack_i_def and_fff bit_simps dest: fld_bit)
  ultimately show ?thesis
    by (simp add: spec_unpack_rv_i_def)
qed

lemma s_imm_join:
  "push_bit 5 (get_bits imm 11 5) OR get_bits imm 4 0 = take_bit 12 imm"
proof (rule bit_eqI)
  fix n :: nat
  have c: "n < 5 \<or> (5 \<le> n \<and> n < 12) \<or> 12 \<le> n"
    by arith
  show "bit (push_bit 5 (get_bits imm 11 5) OR get_bits imm 4 0) n = bit (take_bit 12 imm) n"
    apply (simp only: bit_or_iff bit_shl bit_get_bits bit_take_bit_iff)
    using c
    apply (elim disjE)
      apply auto
    done
qed

lemma rv_s_bits:
  assumes "fld 5 rs2" "fld 5 rs1" "fld 3 f3" "fld 7 opc"
  shows "get_bits (rv_pack_s imm rs2 rs1 f3 opc) 31 25 = get_bits imm 11 5"
    and "get_bits (rv_pack_s imm rs2 rs1 f3 opc) 11 7 = get_bits imm 4 0"
    and "get_bits (rv_pack_s imm rs2 rs1 f3 opc) 24 20 = rs2"
    and "get_bits (rv_pack_s imm rs2 rs1 f3 opc) 19 15 = rs1"
    and "get_bits (rv_pack_s imm rs2 rs1 f3 opc) 14 12 = f3"
    and "get_bits (rv_pack_s imm rs2 rs1 f3 opc) 6 0 = opc"
  using assms
  by (intro bit_eqI; auto simp: bit_get_bits rv_pack_s_def Let_def bit_or_iff bit_push_bit_iff dest: fld_bit)+

lemma rv_s_roundtrip:
  assumes "fld 5 rs2" "fld 5 rs1" "fld 3 f3" "fld 7 opc"
  shows "spec_unpack_rv_s (rv_pack_s imm rs2 rs1 f3 opc) = (take_bit 12 imm, rs2, rs1, f3, opc)"
  by (simp only: spec_unpack_rv_s_def rv_s_bits [OF assms] s_imm_join)

lemma rv_b_fields:
  assumes "fld 5 rs2" "fld 5 rs1" "fld 3 f3" "fld 7 opc"
  shows "get_bits (rv_pack_b off rs2 rs1 f3 opc) 24 20 = rs2"
    and "get_bits (rv_pack_b off rs2 rs1 f3 opc) 19 15 = rs1"
    and "get_bits (rv_pack_b off rs2 rs1 f3 opc) 14 12 = f3"
    and "get_bits (rv_pack_b off rs2 rs1 f3 opc) 6 0 = opc"
  using assms
  by (intro bit_eqI; auto simp: bit_get_bits rv_pack_b_def Let_def bit_or_iff bit_push_bit_iff dest: fld_bit)+

lemma rv_b_roundtrip:
  assumes "fld 5 rs2" "fld 5 rs1" "fld 3 f3" "fld 7 opc" "even off"
  shows "spec_unpack_rv_b (rv_pack_b off rs2 rs1 f3 opc) = (take_bit 13 off, rs2, rs1, f3, opc)"
  by (simp only: spec_unpack_rv_b_def rv_b_bits [OF assms(1-4)] rv_b_fields [OF assms(1-4)]
      b_imm_join [OF assms(5)])

lemma rv_u_roundtrip:
  assumes "fld 5 rd" "fld 7 opc"
  shows "spec_unpack_rv_u (rv_pack_u imm rd opc) = (take_bit 20 imm, rd, opc)"
proof -
  let ?w = "rv_pack_u imm rd opc"
  have "get_bits ?w 31 12 = take_bit 20 imm"
    using assms by (intro bit_eqI) (auto simp: bit_get_bits rv_pack_u_def and_fffff bit_simps dest: fld_bit)
  moreover have "get_bits ?w 11 7 = rd"
    using assms by (intro bit_eqI) (auto simp: bit_get_bits rv_pack_u_def and_fffff bit_simps dest: fld_bit)
  moreover have "get_bits ?w 6 0 = opc"
    using assms by (intro bit_eqI) (auto simp: bit_get_bits rv_pack_u_def and_fffff bit_simps dest: fld_bit)
  ultimately show ?thesis
    by (simp add: spec_unpack_rv_u_def)
qed

lemma rv_j_bits:
  assumes "fld 5 rd" "fld 7 opc"
  shows "get_bits (rv_pack_j off rd opc) 31 31 = get_bits off 20 20"
    and "get_bits (rv_pack_j off rd opc) 19 12 = get_bits off 19 12"
    and "get_bits (rv_pack_j off rd opc) 20 20 = get_bits off 11 11"
    and "get_bits (rv_pack_j off rd opc) 30 21 = get_bits off 10 1"
    and "get_bits (rv_pack_j off rd opc) 11 7 = rd"
    and "get_bits (rv_pack_j off rd opc) 6 0 = opc"
  using assms
  by (intro bit_eqI; auto simp: bit_get_bits rv_pack_j_def Let_def bit_or_iff bit_push_bit_iff dest: fld_bit)+

lemma j_imm_join_bit:
  "bit (push_bit 20 (get_bits off 20 20) OR push_bit 12 (get_bits off 19 12)
     OR push_bit 11 (get_bits off 11 11) OR push_bit 1 (get_bits off 10 1)) n
   \<longleftrightarrow> 1 \<le> n \<and> n < 21 \<and> bit off n"
proof -
  have c: "n = 0 \<or> (1 \<le> n \<and> n < 11) \<or> n = 11 \<or> (12 \<le> n \<and> n < 20) \<or> n = 20 \<or> 21 \<le> n"
    by arith
  show ?thesis
    apply (simp only: bit_or_iff bit_shl bit_get_bits)
    using c
    apply (elim disjE)
         apply auto
    done
qed

lemma j_imm_join:
  "even off \<Longrightarrow>
   push_bit 20 (get_bits off 20 20) OR push_bit 12 (get_bits off 19 12)
     OR push_bit 11 (get_bits off 11 11) OR push_bit 1 (get_bits off 10 1)
   = take_bit 21 off"
proof (rule bit_eqI)
  fix n :: nat
  assume e: "even off"
  have "\<not> bit off 0" using e by (simp add: bit_0)
  then have "(1 \<le> n \<and> n < 21 \<and> bit off n) \<longleftrightarrow> (n < 21 \<and> bit off n)"
    by (cases "n = 0") auto
  then show "bit (push_bit 20 (get_bits off 20 20) OR push_bit 12 (get_bits off 19 12)
     OR push_bit 11 (get_bits off 11 11) OR push_bit 1 (get_bits off 10 1)) n
     = bit (take_bit 21 off) n"
    by (simp only: j_imm_join_bit bit_take_bit_iff)
qed

lemma rv_j_roundtrip:
  assumes "fld 5 rd" "fld 7 opc" "even off"
  shows "spec_unpack_rv_j (rv_pack_j off rd opc) = (take_bit 21 off, rd, opc)"
  by (simp only: spec_unpack_rv_j_def rv_j_bits [OF assms(1-2)] j_imm_join [OF assms(3)])

subsection \<open>Pass 1 as a function of the lines\<close>

lemma bind_err_Inr_iff:
  "bind_err m f = Inr y \<longleftrightarrow> (\<exists>x. m = Inr x \<and> f x = Inr y)"
  by (cases m) (simp_all add: bind_err_def)

lemma bind_err_Inl_iff:
  "bind_err m f = Inl e \<longleftrightarrow> m = Inl e \<or> (\<exists>x. m = Inr x \<and> f x = Inl e)"
  by (cases m) (simp_all add: bind_err_def)

lemma mips_preprocess_line_eq:
  "mips_preprocess_line (cl, lb) raw =
     bind_err (mips_line_instrs raw) (\<lambda>new.
       Inr (cl @ new,
            case mips_line_label raw of None \<Rightarrow> lb | Some n \<Rightarrow> lb(n \<mapsto> int (length cl))))"
  by (auto simp: mips_preprocess_line_def mips_line_instrs_def mips_line_label_def Let_def
      bind_err_simps split: prod.splits)

lemma mips_preprocess_loop_append:
  "mips_preprocess_loop st (xs @ ys) =
     bind_err (mips_preprocess_loop st xs) (\<lambda>st'. mips_preprocess_loop st' ys)"
proof (induction xs arbitrary: st)
  case Nil
  show ?case by (simp add: bind_err_simps)
next
  case (Cons x xs)
  show ?case
    by (cases "mips_preprocess_line st x") (simp_all add: bind_err_simps Cons.IH)
qed

lemma mips_preprocess_loop_code:
  "map_sum id fst (mips_preprocess_loop (cl, lb) lines) =
     map_sum id (\<lambda>r. cl @ r) (program_instrs mips_line_instrs lines)"
proof (induction lines arbitrary: cl lb)
  case Nil
  show ?case by simp
next
  case (Cons l ls)
  show ?case
  proof (cases "mips_line_instrs l")
    case (Inl e)
    then show ?thesis
      by (simp add: mips_preprocess_line_eq bind_err_simps)
  next
    case (Inr new)
    then show ?thesis
      using Cons.IH [of "cl @ new"]
      by (cases "program_instrs mips_line_instrs ls")
         (simp_all add: mips_preprocess_line_eq bind_err_simps)
  qed
qed

lemma mips_preprocess_loop_Inr:
  assumes "mips_preprocess_loop (cl, lb) lines = Inr (code, labels)"
  shows "\<exists>r. program_instrs mips_line_instrs lines = Inr r \<and> code = cl @ r"
proof -
  from mips_preprocess_loop_code [of cl lb lines] assms
  have "map_sum id (\<lambda>r. cl @ r) (program_instrs mips_line_instrs lines) = Inr code"
    by simp
  then show ?thesis
    by (cases "program_instrs mips_line_instrs lines") auto
qed

lemma mips_preprocess_loop_label_kept:
  assumes "mips_preprocess_loop (cl, lb) lines = Inr (code, labels)"
    and "\<forall>l \<in> set lines. mips_line_label l \<noteq> Some n"
  shows "labels n = lb n"
  using assms
proof (induction lines arbitrary: cl lb)
  case Nil
  then show ?case by simp
next
  case (Cons l ls)
  from Cons.prems(1) obtain new where
    new: "mips_line_instrs l = Inr new"
    and rest: "mips_preprocess_loop
         (cl @ new, case mips_line_label l of None \<Rightarrow> lb | Some m \<Rightarrow> lb(m \<mapsto> int (length cl))) ls
       = Inr (code, labels)"
    by (auto simp: mips_preprocess_line_eq bind_err_Inr_iff)
  from Cons.prems(2) have "mips_line_label l \<noteq> Some n" and "\<forall>l \<in> set ls. mips_line_label l \<noteq> Some n"
    by simp_all
  with Cons.IH [OF rest] show ?case
    by (auto split: option.splits)
qed

lemma rv_pass1_line_eq:
  "rv_pass1_line (cl, pc, lb) line =
     bind_err (rv_line_instrs line) (\<lambda>new.
       Inr (cl @ new, pc + 4 * int (length new),
            case rv_line_label line of None \<Rightarrow> lb | Some n \<Rightarrow> lb(n \<mapsto> pc)))"
  by (auto simp: rv_pass1_line_def rv_line_instrs_def rv_line_label_def Let_def
      bind_err_simps split: prod.splits)

lemma rv_pass1_loop_append:
  "rv_pass1_loop st (xs @ ys) =
     bind_err (rv_pass1_loop st xs) (\<lambda>st'. rv_pass1_loop st' ys)"
proof (induction xs arbitrary: st)
  case Nil
  show ?case by (simp add: bind_err_simps)
next
  case (Cons x xs)
  show ?case
    by (cases "rv_pass1_line st x") (simp_all add: bind_err_simps Cons.IH)
qed

lemma rv_pass1_loop_code:
  "map_sum id (\<lambda>(c, p, t). (c, p)) (rv_pass1_loop (cl, pc, lb) lines) =
     map_sum id (\<lambda>r. (cl @ r, pc + 4 * int (length r))) (program_instrs rv_line_instrs lines)"
proof (induction lines arbitrary: cl pc lb)
  case Nil
  show ?case by simp
next
  case (Cons l ls)
  show ?case
  proof (cases "rv_line_instrs l")
    case (Inl e)
    then show ?thesis
      by (simp add: rv_pass1_line_eq bind_err_simps)
  next
    case (Inr new)
    then show ?thesis
      using Cons.IH [of "cl @ new" "pc + 4 * int (length new)"]
      by (cases "program_instrs rv_line_instrs ls")
         (simp_all add: rv_pass1_line_eq bind_err_simps algebra_simps)
  qed
qed

lemma rv_pass1_loop_Inr:
  assumes "rv_pass1_loop (cl, pc, lb) lines = Inr (code, pc', labels)"
  shows "\<exists>r. program_instrs rv_line_instrs lines = Inr r \<and> code = cl @ r
           \<and> pc' = pc + 4 * int (length r)"
proof -
  from rv_pass1_loop_code [of cl pc lb lines] assms
  have "map_sum id (\<lambda>r. (cl @ r, pc + 4 * int (length r))) (program_instrs rv_line_instrs lines)
          = Inr (code, pc')"
    by simp
  then show ?thesis
    by (cases "program_instrs rv_line_instrs lines") auto
qed

lemma rv_pass1_loop_label_kept:
  assumes "rv_pass1_loop (cl, pc, lb) lines = Inr (code, pc', labels)"
    and "\<forall>l \<in> set lines. rv_line_label l \<noteq> Some n"
  shows "labels n = lb n"
  using assms
proof (induction lines arbitrary: cl pc lb)
  case Nil
  then show ?case by simp
next
  case (Cons l ls)
  from Cons.prems(1) obtain new where
    new: "rv_line_instrs l = Inr new"
    and rest: "rv_pass1_loop
         (cl @ new, pc + 4 * int (length new),
          case rv_line_label l of None \<Rightarrow> lb | Some m \<Rightarrow> lb(m \<mapsto> pc)) ls
       = Inr (code, pc', labels)"
    by (auto simp: rv_pass1_line_eq bind_err_Inr_iff)
  from Cons.prems(2) have "rv_line_label l \<noteq> Some n" and "\<forall>l \<in> set ls. rv_line_label l \<noteq> Some n"
    by simp_all
  with Cons.IH [OF rest] show ?case
    by (auto split: option.splits)
qed

lemma program_instrs_append:
  "program_instrs li (xs @ ys) =
     bind_err (program_instrs li xs) (\<lambda>a. bind_err (program_instrs li ys) (\<lambda>b. Inr (a @ b)))"
proof (induction xs)
  case Nil
  show ?case
    by (cases "program_instrs li ys") (simp_all add: bind_err_simps)
next
  case (Cons x xs)
  show ?case
    by (cases "li x"; cases "program_instrs li xs"; cases "program_instrs li ys")
       (simp_all add: bind_err_simps Cons.IH)
qed

subsection \<open>Pass 2 as a function of the instruction list\<close>

lemma mips_assemble_loop_Inr:
  assumes "mips_assemble_loop labels k code out = Inr ws"
  shows "length ws = length out + length code \<and> take (length out) ws = out
       \<and> (\<forall>i < length code. \<exists>mc. mips_encode labels (k + i) (code ! i) = Inr mc
              \<and> ws ! (length out + i) = format_08x mc)"
  using assms
proof (induction code arbitrary: k out)
  case Nil
  then show ?case by simp
next
  case (Cons ins rest)
  from Cons.prems obtain mc where
    e: "mips_encode labels k ins = Inr mc"
    and r: "mips_assemble_loop labels (Suc k) rest (out @ [format_08x mc]) = Inr ws"
    by (cases "mips_encode labels k ins") simp_all
  from Cons.IH [OF r] have
    len: "length ws = length out + 1 + length rest"
    and tk: "take (length out + 1) ws = out @ [format_08x mc]"
    and ih: "\<forall>i < length rest. \<exists>mc'. mips_encode labels (Suc k + i) (rest ! i) = Inr mc'
              \<and> ws ! (length out + 1 + i) = format_08x mc'"
    by simp_all
  from tk have t0: "take (length out) ws = out"
  proof -
    have "take (length out) ws = take (length out) (take (length out + 1) ws)"
      by simp
    with tk show ?thesis
      by simp
  qed
  from tk len have w0: "ws ! length out = format_08x mc"
  proof -
    have "ws ! length out = take (length out + 1) ws ! length out"
      by simp
    with tk show ?thesis
      by simp
  qed
  have "\<exists>mc'. mips_encode labels (k + i) ((ins # rest) ! i) = Inr mc'
              \<and> ws ! (length out + i) = format_08x mc'" if "i < length (ins # rest)" for i
  proof (cases i)
    case 0
    with e w0 show ?thesis by simp
  next
    case (Suc j)
    with that ih show ?thesis by simp
  qed
  with len t0 show ?case by simp
qed

lemma mips_assemble_loop_Inl:
  assumes "i < length code" and "mips_encode labels (k + i) (code ! i) = Inl e"
  shows "mips_assemble_loop labels k code out = Inl (SystemExit 1)"
  using assms
proof (induction code arbitrary: k out i)
  case Nil
  then show ?case by simp
next
  case (Cons ins rest)
  show ?case
  proof (cases "mips_encode labels k ins")
    case (Inl e')
    then show ?thesis by simp
  next
    case (Inr mc)
    with Cons.prems obtain j where j: "i = Suc j"
      by (cases i) simp_all
    with Cons.prems have "j < length rest" "mips_encode labels (Suc k + j) (rest ! j) = Inl e"
      by simp_all
    from Cons.IH [OF this] Inr show ?thesis by simp
  qed
qed

lemma rv_pass2_loop_Inr:
  assumes "rv_pass2_loop labels pc code out = Inr ws"
  shows "length ws = length out + length code \<and> take (length out) ws = out
       \<and> (\<forall>i < length code. \<exists>c. rv_encode labels (pc + 4 * int i) (code ! i) = Inr c
              \<and> ws ! (length out + i) = format_08x (c AND 0xFFFFFFFF))"
  using assms
proof (induction code arbitrary: pc out)
  case Nil
  then show ?case by simp
next
  case (Cons ins rest)
  from Cons.prems obtain c where
    e: "rv_encode labels pc ins = Inr c"
    and r: "rv_pass2_loop labels (pc + 4) rest (out @ [format_08x (c AND 0xFFFFFFFF)]) = Inr ws"
    by (cases "rv_encode labels pc ins") simp_all
  from Cons.IH [OF r] have
    len: "length ws = length out + 1 + length rest"
    and tk: "take (length out + 1) ws = out @ [format_08x (c AND 0xFFFFFFFF)]"
    and ih: "\<forall>i < length rest. \<exists>c'. rv_encode labels (pc + 4 + 4 * int i) (rest ! i) = Inr c'
              \<and> ws ! (length out + 1 + i) = format_08x (c' AND 0xFFFFFFFF)"
    by simp_all
  from tk have t0: "take (length out) ws = out"
  proof -
    have "take (length out) ws = take (length out) (take (length out + 1) ws)"
      by simp
    with tk show ?thesis
      by simp
  qed
  from tk len have w0: "ws ! length out = format_08x (c AND 0xFFFFFFFF)"
  proof -
    have "ws ! length out = take (length out + 1) ws ! length out"
      by simp
    with tk show ?thesis
      by simp
  qed
  have "\<exists>c'. rv_encode labels (pc + 4 * int i) ((ins # rest) ! i) = Inr c'
              \<and> ws ! (length out + i) = format_08x (c' AND 0xFFFFFFFF)"
    if "i < length (ins # rest)" for i
  proof (cases i)
    case 0
    with e w0 show ?thesis by simp
  next
    case (Suc j)
    with that ih show ?thesis by (simp add: algebra_simps)
  qed
  with len t0 show ?case by simp
qed

lemma rv_pass2_loop_Inl:
  assumes "i < length code" and "rv_encode labels (pc + 4 * int i) (code ! i) = Inl e"
  shows "\<exists>e'. rv_pass2_loop labels pc code out = Inl e'"
  using assms
proof (induction code arbitrary: pc out i)
  case Nil
  then show ?case by simp
next
  case (Cons ins rest)
  show ?case
  proof (cases "rv_encode labels pc ins")
    case (Inl e')
    then show ?thesis by simp
  next
    case (Inr c)
    with Cons.prems obtain j where j: "i = Suc j"
      by (cases i) simp_all
    with Cons.prems have "j < length rest"
      "rv_encode labels (pc + 4 + 4 * int j) (rest ! j) = Inl e"
      by (simp_all add: algebra_simps)
    from Cons.IH [OF this] Inr show ?thesis by simp
  qed
qed

subsection \<open>The operands of the MIPS \<open>jalr\<close>\<close>

text \<open>
  C10. A MIPS \<open>jalr\<close> with exactly one operand encodes that operand as \<open>rs\<close> and 31 (the
  link register) as \<open>rd\<close>; with two operands the first is \<open>rd\<close> and the second \<open>rs\<close>. In
  both cases the word is the R-type layout with opcode 0, \<open>rt\<close> = 0, shift amount 0 and
  function code 9, and a register that does not parse is the only failure.
\<close>

theorem mips_jalr_operands:
  "(mips_split_args args_str = [a] \<longrightarrow>
      mips_encode labels i (''jalr'', args_str) =
        bind_err (mips_parse_reg a) (\<lambda>rs. Inr (mips_pack_r 0 rs 0 31 0 0x09)))
   \<and> (mips_split_args args_str = [a, b] \<longrightarrow>
      mips_encode labels i (''jalr'', args_str) =
        bind_err (mips_parse_reg a) (\<lambda>rd.
        bind_err (mips_parse_reg b) (\<lambda>rs. Inr (mips_pack_r 0 rs 0 rd 0 0x09))))"
  by (simp add: mips_encode_def mips_encode_r_def R_TYPE_jalr mips_reg_arg_def arg_def
      bind_err_simps)

theorem mips_jalr_operands_witness:
  "mips_split_args ''$t0'' = [''$t0'']
   \<and> mips_encode Map.empty 0 (''jalr'', ''$t0'') = Inr 0x0100f809
   \<and> mips_split_args ''$t1, $t0'' = [''$t1'', ''$t0'']
   \<and> mips_encode Map.empty 0 (''jalr'', ''$t1, $t0'') = Inr 0x01004809"
proof -
  have h1: "mips_split_args ''$t0'' = [''$t0'']"
    by code_simp
  have h2: "mips_split_args ''$t1, $t0'' = [''$t1'', ''$t0'']"
    by code_simp
  have v1: "bind_err (mips_parse_reg ''$t0'') (\<lambda>rs. Inr (mips_pack_r 0 rs 0 31 0 0x09))
      = Inr 0x0100f809"
    by code_simp
  have v2: "bind_err (mips_parse_reg ''$t1'') (\<lambda>rd.
        bind_err (mips_parse_reg ''$t0'') (\<lambda>rs. Inr (mips_pack_r 0 rs 0 rd 0 0x09)))
      = Inr 0x01004809"
    by code_simp
  from mips_jalr_operands [of "''$t0''" "''$t0''" Map.empty 0]
       mips_jalr_operands [of "''$t1, $t0''" "''$t1''" Map.empty 0 "''$t0''"]
       h1 h2 v1 v2
  show ?thesis by simp
qed

subsection \<open>Packing and unpacking the instruction formats\<close>

text \<open>
  C9. For every instruction format of the two encoders and all field values in range
  (6-bit opcode and function code, 5-bit registers and shift amount, 7-bit RISC-V opcode
  and funct7, 3-bit funct3, immediates of the field's width, the B and J offsets even),
  packing with the encoder's layout and reading the documented bit positions gives the
  fields back: the MIPS R, I and J layouts, and the RISC-V R, I, S (immediate split into
  bits 11:5 and 4:0), B (scrambled 13-bit offset), U and J (scrambled 21-bit offset)
  layouts.
\<close>

theorem pack_unpack_roundtrip:
  assumes "fld 6 opcode" "fld 6 funct" "fld 5 rs" "fld 5 rt" "fld 5 rd" "fld 5 sa"
    and "fld 16 imm16" "fld 26 target"
    and "fld 7 f7" "fld 3 f3" "fld 7 opc"
    and "fld 12 imm12" "fld 20 imm20"
    and "fld 13 boff" "even boff" "fld 21 joff" "even joff"
  shows "spec_unpack_mips_r (mips_pack_r opcode rs rt rd sa funct)
           = (opcode, rs, rt, rd, sa, funct)
       \<and> spec_unpack_mips_i (mips_pack_i opcode rs rt imm16) = (opcode, rs, rt, imm16)
       \<and> spec_unpack_mips_j (mips_pack_j opcode target) = (opcode, target)
       \<and> spec_unpack_rv_r (rv_pack_r f7 rt rs f3 rd opc) = (f7, rt, rs, f3, rd, opc)
       \<and> spec_unpack_rv_i (rv_pack_i imm12 rs f3 rd opc) = (imm12, rs, f3, rd, opc)
       \<and> spec_unpack_rv_s (rv_pack_s imm12 rt rs f3 opc) = (imm12, rt, rs, f3, opc)
       \<and> spec_unpack_rv_b (rv_pack_b boff rt rs f3 opc) = (boff, rt, rs, f3, opc)
       \<and> spec_unpack_rv_u (rv_pack_u imm20 rd opc) = (imm20, rd, opc)
       \<and> spec_unpack_rv_j (rv_pack_j joff rd opc) = (joff, rd, opc)"
proof -
  have t: "take_bit 16 imm16 = imm16" "take_bit 26 target = target"
    "take_bit 12 imm12 = imm12" "take_bit 20 imm20 = imm20"
    "take_bit 13 boff = boff" "take_bit 21 joff = joff"
    using assms by (simp_all add: fld_take_bit)
  have "spec_unpack_mips_r (mips_pack_r opcode rs rt rd sa funct)
          = (opcode, rs, rt, rd, sa, funct)"
    using assms by (simp add: mips_r_roundtrip)
  moreover have "spec_unpack_mips_i (mips_pack_i opcode rs rt imm16) = (opcode, rs, rt, imm16)"
    using assms t by (simp add: mips_i_roundtrip)
  moreover have "spec_unpack_mips_j (mips_pack_j opcode target) = (opcode, target)"
    using assms t by (simp add: mips_j_roundtrip)
  moreover have "spec_unpack_rv_r (rv_pack_r f7 rt rs f3 rd opc) = (f7, rt, rs, f3, rd, opc)"
    using assms by (simp add: rv_r_roundtrip)
  moreover have "spec_unpack_rv_i (rv_pack_i imm12 rs f3 rd opc) = (imm12, rs, f3, rd, opc)"
    using assms t by (simp add: rv_i_roundtrip)
  moreover have "spec_unpack_rv_s (rv_pack_s imm12 rt rs f3 opc) = (imm12, rt, rs, f3, opc)"
    using assms t by (simp add: rv_s_roundtrip)
  moreover have "spec_unpack_rv_b (rv_pack_b boff rt rs f3 opc) = (boff, rt, rs, f3, opc)"
    using assms t by (simp add: rv_b_roundtrip)
  moreover have "spec_unpack_rv_u (rv_pack_u imm20 rd opc) = (imm20, rd, opc)"
    using assms t by (simp add: rv_u_roundtrip)
  moreover have "spec_unpack_rv_j (rv_pack_j joff rd opc) = (joff, rd, opc)"
    using assms t by (simp add: rv_j_roundtrip)
  ultimately show ?thesis
    by simp
qed

theorem pack_unpack_roundtrip_witness:
  "fld 6 0x23 \<and> fld 6 0x2a \<and> fld 5 29 \<and> fld 5 9 \<and> fld 5 31 \<and> fld 5 4
   \<and> fld 16 0xFFFC \<and> fld 26 0x0100000 \<and> fld 7 0x20 \<and> fld 3 5 \<and> fld 7 0x63
   \<and> fld 12 0xFF8 \<and> fld 20 0x12345 \<and> fld 13 0x1FF0 \<and> even (0x1FF0 :: int)
   \<and> fld 21 0x1FFFF0 \<and> even (0x1FFFF0 :: int)
   \<and> spec_unpack_mips_r (mips_pack_r 0x23 29 9 31 4 0x2a) = (0x23, 29, 9, 31, 4, 0x2a)
   \<and> spec_unpack_mips_i (mips_pack_i 0x23 29 9 0xFFFC) = (0x23, 29, 9, 0xFFFC)
   \<and> spec_unpack_mips_j (mips_pack_j 0x23 0x0100000) = (0x23, 0x0100000)
   \<and> spec_unpack_rv_r (rv_pack_r 0x20 9 29 5 31 0x63) = (0x20, 9, 29, 5, 31, 0x63)
   \<and> spec_unpack_rv_i (rv_pack_i 0xFF8 29 5 31 0x63) = (0xFF8, 29, 5, 31, 0x63)
   \<and> spec_unpack_rv_s (rv_pack_s 0xFF8 9 29 5 0x63) = (0xFF8, 9, 29, 5, 0x63)
   \<and> spec_unpack_rv_b (rv_pack_b 0x1FF0 9 29 5 0x63) = (0x1FF0, 9, 29, 5, 0x63)
   \<and> spec_unpack_rv_u (rv_pack_u 0x12345 31 0x63) = (0x12345, 31, 0x63)
   \<and> spec_unpack_rv_j (rv_pack_j 0x1FFFF0 31 0x63) = (0x1FFFF0, 31, 0x63)"
proof -
  have h: "fld 6 0x23" "fld 6 0x2a" "fld 5 29" "fld 5 9" "fld 5 31" "fld 5 4"
    "fld 16 0xFFFC" "fld 26 0x0100000" "fld 7 0x20" "fld 3 5" "fld 7 0x63"
    "fld 12 0xFF8" "fld 20 0x12345" "fld 13 0x1FF0" "even (0x1FF0 :: int)"
    "fld 21 0x1FFFF0" "even (0x1FFFF0 :: int)"
    by (simp_all add: fld_def)
  from pack_unpack_roundtrip [OF h] h show ?thesis
    by simp
qed

subsection \<open>Where a label is bound\<close>

text \<open>
  C2, as the code has it. Take a program, a line of it that defines the label \<open>n\<close>, and let
  no later line define \<open>n\<close> again. When pass 1 succeeds, the canonical instruction list
  splits into the instructions of the lines before the definition (all pseudo-instructions
  expanded) and the instructions from the defining line on, and the table binds \<open>n\<close> to the
  number of instructions of the first part: the index of the first canonical instruction
  that follows the definition, or the length of the program when none follows. The MIPS
  table holds that word index itself; the RISC-V table holds the byte address, four times
  the index, and the final \<open>pc\<close> of pass 1 is four times the length of the program.
\<close>

theorem label_bound_to_next_instruction:
  "(mips_preprocess (pre @ raw # post) = Inr (code, labels)
      \<and> mips_line_label raw = Some n
      \<and> (\<forall>l \<in> set post. mips_line_label l \<noteq> Some n)
    \<longrightarrow> (\<exists>code_pre code_rest.
           program_instrs mips_line_instrs pre = Inr code_pre
         \<and> program_instrs mips_line_instrs (raw # post) = Inr code_rest
         \<and> code = code_pre @ code_rest
         \<and> labels n = Some (int (length code_pre))))
   \<and> (rv_read_lines f = pre' @ line # post'
      \<and> rv_pass1 f = Inr (code', pc, labels')
      \<and> rv_line_label line = Some n'
      \<and> (\<forall>l \<in> set post'. rv_line_label l \<noteq> Some n')
    \<longrightarrow> (\<exists>code_pre code_rest.
           program_instrs rv_line_instrs pre' = Inr code_pre
         \<and> program_instrs rv_line_instrs (line # post') = Inr code_rest
         \<and> code' = code_pre @ code_rest
         \<and> labels' n' = Some (4 * int (length code_pre))
         \<and> pc = 4 * int (length code')))"
proof (intro conjI impI)
  assume a: "mips_preprocess (pre @ raw # post) = Inr (code, labels)
      \<and> mips_line_label raw = Some n
      \<and> (\<forall>l \<in> set post. mips_line_label l \<noteq> Some n)"
  then obtain cp lp where
    p1: "mips_preprocess_loop ([], Map.empty) pre = Inr (cp, lp)"
    and p2: "mips_preprocess_loop (cp, lp) (raw # post) = Inr (code, labels)"
    by (auto simp: mips_preprocess_def mips_preprocess_loop_append bind_err_Inr_iff)
  from mips_preprocess_loop_Inr [OF p1] have i1: "program_instrs mips_line_instrs pre = Inr cp"
    by simp
  from mips_preprocess_loop_Inr [OF p2] obtain r where
    i2: "program_instrs mips_line_instrs (raw # post) = Inr r" and c: "code = cp @ r"
    by blast
  from p2 a obtain new where
    p3: "mips_preprocess_loop (cp @ new, lp(n \<mapsto> int (length cp))) post = Inr (code, labels)"
    by (auto simp: mips_preprocess_line_eq bind_err_Inr_iff)
  from mips_preprocess_loop_label_kept [OF p3] a have "labels n = Some (int (length cp))"
    by simp
  with i1 i2 c show "\<exists>code_pre code_rest.
           program_instrs mips_line_instrs pre = Inr code_pre
         \<and> program_instrs mips_line_instrs (raw # post) = Inr code_rest
         \<and> code = code_pre @ code_rest
         \<and> labels n = Some (int (length code_pre))"
    by blast
next
  assume a: "rv_read_lines f = pre' @ line # post'
      \<and> rv_pass1 f = Inr (code', pc, labels')
      \<and> rv_line_label line = Some n'
      \<and> (\<forall>l \<in> set post'. rv_line_label l \<noteq> Some n')"
  then obtain cp pp lp where
    p1: "rv_pass1_loop ([], 0, Map.empty) pre' = Inr (cp, pp, lp)"
    and p2: "rv_pass1_loop (cp, pp, lp) (line # post') = Inr (code', pc, labels')"
    by (auto simp: rv_pass1_def rv_pass1_loop_append bind_err_Inr_iff)
  from rv_pass1_loop_Inr [OF p1] have i1: "program_instrs rv_line_instrs pre' = Inr cp"
    and pp: "pp = 4 * int (length cp)"
    by simp_all
  from rv_pass1_loop_Inr [OF p2] obtain r where
    i2: "program_instrs rv_line_instrs (line # post') = Inr r" and c: "code' = cp @ r"
    and pc: "pc = pp + 4 * int (length r)"
    by blast
  from p2 a obtain new where
    p3: "rv_pass1_loop (cp @ new, pp + 4 * int (length new), lp(n' \<mapsto> pp)) post'
           = Inr (code', pc, labels')"
    by (auto simp: rv_pass1_line_eq bind_err_Inr_iff)
  from rv_pass1_loop_label_kept [OF p3] a have "labels' n' = Some pp"
    by simp
  with i1 i2 c pp pc show "\<exists>code_pre code_rest.
           program_instrs rv_line_instrs pre' = Inr code_pre
         \<and> program_instrs rv_line_instrs (line # post') = Inr code_rest
         \<and> code' = code_pre @ code_rest
         \<and> labels' n' = Some (4 * int (length code_pre))
         \<and> pc = 4 * int (length code')"
    by auto
qed

text \<open>A label after a two-instruction \<open>li\<close>: index 2 on MIPS, address 8 on RISC-V.\<close>

theorem label_bound_to_next_instruction_witness:
  "mips_line_label ''L: nop'' = Some ''L''
   \<and> mips_label_of [''li $t0, 100000'', ''L: nop''] ''L'' = Some 2
   \<and> rv_read_lines [''li t0, 5'', ''L: nop''] = [''li t0, 5'', ''L: nop'']
   \<and> rv_line_label ''L: nop'' = Some ''L''
   \<and> rv_label_of [''li t0, 5'', ''L: nop''] ''L'' = Some 8"
proof -
  have m1: "mips_line_label ''L: nop'' = Some ''L''"
    by code_simp
  have m2: "program_instrs mips_line_instrs [''li $t0, 100000'']
      = Inr [(''lui'', ''$t0, 1''), (''ori'', ''$t0, $t0, 34464'')]"
    by code_simp
  have "\<not> isl (mips_preprocess [''li $t0, 100000'', ''L: nop''])"
    by code_simp
  then obtain code labels where
    m3: "mips_preprocess ([''li $t0, 100000''] @ ''L: nop'' # []) = Inr (code, labels)"
    by (cases "mips_preprocess [''li $t0, 100000'', ''L: nop'']") auto
  have "\<exists>code_pre code_rest.
           program_instrs mips_line_instrs [''li $t0, 100000''] = Inr code_pre
         \<and> program_instrs mips_line_instrs (''L: nop'' # []) = Inr code_rest
         \<and> code = code_pre @ code_rest
         \<and> labels ''L'' = Some (int (length code_pre))"
    using label_bound_to_next_instruction
         [THEN conjunct1, of "[''li $t0, 100000'']" "''L: nop''" "[]" code labels "''L''"] m1 m3
    by simp
  with m2 have "labels ''L'' = Some 2"
    by auto
  with m3 have m: "mips_label_of [''li $t0, 100000'', ''L: nop''] ''L'' = Some 2"
    by (simp add: mips_label_of_def)
  have r0: "rv_read_lines [''li t0, 5'', ''L: nop''] = [''li t0, 5''] @ ''L: nop'' # []"
    by code_simp
  have r1: "rv_line_label ''L: nop'' = Some ''L''"
    by code_simp
  have r2: "program_instrs rv_line_instrs [''li t0, 5'']
      = Inr [(''lui'', ''t0, 0''), (''addi'', ''t0, t0, 5'')]"
    by code_simp
  have "\<not> isl (rv_pass1 [''li t0, 5'', ''L: nop''])"
    by code_simp
  then obtain code' pc labels' where
    r3: "rv_pass1 [''li t0, 5'', ''L: nop''] = Inr (code', pc, labels')"
    by (cases "rv_pass1 [''li t0, 5'', ''L: nop'']") auto
  have "\<exists>code_pre code_rest.
           program_instrs rv_line_instrs [''li t0, 5''] = Inr code_pre
         \<and> program_instrs rv_line_instrs (''L: nop'' # []) = Inr code_rest
         \<and> code' = code_pre @ code_rest
         \<and> labels' ''L'' = Some (4 * int (length code_pre))
         \<and> pc = 4 * int (length code')"
    using label_bound_to_next_instruction
         [THEN conjunct2, of "[''li t0, 5'', ''L: nop'']" "[''li t0, 5'']" "''L: nop''" "[]"
             code' pc labels' "''L''"] r0 r1 r3
    by simp
  with r2 have "labels' ''L'' = Some 8"
    by auto
  with r3 have r: "rv_label_of [''li t0, 5'', ''L: nop''] ''L'' = Some 8"
    by (simp add: rv_label_of_def)
  from m1 m r0 r1 r show ?thesis
    by simp
qed

text \<open>On MIPS the table holds the word index, not four times it: the label after one
  instruction is bound to 1.\<close>

theorem mips_label_is_word_index_counterexample:
  "mips_label_of [''nop'', ''L: nop''] ''L'' = Some 1
   \<and> mips_label_of [''nop'', ''L: nop''] ''L'' \<noteq> Some (4 * 1)"
  by code_simp

subsection \<open>A label defined twice\<close>

text \<open>
  C4, as the code has it. Neither assembler checks a label for an earlier definition. A
  line that defines a name already in the table overwrites the entry with the current
  position and is processed like any other line; and whether pass 1 raises, and the
  instruction list it produces, are those of the statement expansions alone, so no label
  definition, repeated or not, ever raises.
\<close>

theorem duplicate_label_overwrites:
  "(mips_line_label raw = Some n \<and> lb n = Some a \<and> mips_line_instrs raw = Inr new
    \<longrightarrow> mips_preprocess_line (cl, lb) raw = Inr (cl @ new, lb(n \<mapsto> int (length cl))))
   \<and> (rv_line_label line = Some n' \<and> lb' n' = Some a' \<and> rv_line_instrs line = Inr new'
    \<longrightarrow> rv_pass1_line (cl', pc, lb') line
          = Inr (cl' @ new', pc + 4 * int (length new'), lb'(n' \<mapsto> pc)))
   \<and> map_sum id fst (mips_preprocess lines) = program_instrs mips_line_instrs lines
   \<and> map_sum id fst (rv_pass1 f) = program_instrs rv_line_instrs (rv_read_lines f)"
proof (intro conjI impI)
  assume "mips_line_label raw = Some n \<and> lb n = Some a \<and> mips_line_instrs raw = Inr new"
  then show "mips_preprocess_line (cl, lb) raw = Inr (cl @ new, lb(n \<mapsto> int (length cl)))"
    by (simp add: mips_preprocess_line_eq bind_err_simps)
next
  assume "rv_line_label line = Some n' \<and> lb' n' = Some a' \<and> rv_line_instrs line = Inr new'"
  then show "rv_pass1_line (cl', pc, lb') line
          = Inr (cl' @ new', pc + 4 * int (length new'), lb'(n' \<mapsto> pc))"
    by (simp add: rv_pass1_line_eq bind_err_simps)
next
  show "map_sum id fst (mips_preprocess lines) = program_instrs mips_line_instrs lines"
    using mips_preprocess_loop_code [of "[]" Map.empty lines]
    by (cases "program_instrs mips_line_instrs lines") (simp_all add: mips_preprocess_def)
next
  have "map_sum id fst (rv_pass1 f)
          = map_sum id fst (map_sum id (\<lambda>(c, p, t). (c, p)) (rv_pass1 f))"
    by (cases "rv_pass1 f") auto
  also have "\<dots> = program_instrs rv_line_instrs (rv_read_lines f)"
    using rv_pass1_loop_code [of "[]" 0 Map.empty "rv_read_lines f"]
    by (cases "program_instrs rv_line_instrs (rv_read_lines f)") (simp_all add: rv_pass1_def)
  finally show "map_sum id fst (rv_pass1 f) = program_instrs rv_line_instrs (rv_read_lines f)" .
qed

text \<open>The second definition of \<open>L\<close>, after one instruction, replaces the entry 0.\<close>

theorem duplicate_label_overwrites_witness:
  "mips_line_label ''L: nop'' = Some ''L''
   \<and> (Map.empty(''L'' \<mapsto> 0 :: int)) ''L'' = Some 0
   \<and> mips_line_instrs ''L: nop'' = Inr [(''addi'', ''$0, $0, 0'')]
   \<and> mips_preprocess_line ([(''addi'', ''$0, $0, 0'')], Map.empty(''L'' \<mapsto> 0)) ''L: nop''
       = Inr ([(''addi'', ''$0, $0, 0''), (''addi'', ''$0, $0, 0'')],
              (Map.empty(''L'' \<mapsto> 0))(''L'' \<mapsto> 1))
   \<and> rv_line_label ''L: nop'' = Some ''L''
   \<and> rv_line_instrs ''L: nop'' = Inr [(''addi'', ''x0, x0, 0'')]
   \<and> rv_pass1_line ([(''addi'', ''x0, x0, 0'')], 4, Map.empty(''L'' \<mapsto> 0)) ''L: nop''
       = Inr ([(''addi'', ''x0, x0, 0''), (''addi'', ''x0, x0, 0'')], 8,
              (Map.empty(''L'' \<mapsto> 0))(''L'' \<mapsto> 4))"
proof -
  have m1: "mips_line_label ''L: nop'' = Some ''L''"
    by code_simp
  have m2: "(Map.empty(''L'' \<mapsto> 0 :: int)) ''L'' = Some 0"
    by simp
  have m3: "mips_line_instrs ''L: nop'' = Inr [(''addi'', ''$0, $0, 0'')]"
    by code_simp
  have r1: "rv_line_label ''L: nop'' = Some ''L''"
    by code_simp
  have r3: "rv_line_instrs ''L: nop'' = Inr [(''addi'', ''x0, x0, 0'')]"
    by code_simp
  from duplicate_label_overwrites
         [THEN conjunct1, of "''L: nop''" "''L''" "Map.empty(''L'' \<mapsto> 0)" 0
            "[(''addi'', ''$0, $0, 0'')]" "[(''addi'', ''$0, $0, 0'')]"]
       m1 m2 m3
  have m: "mips_preprocess_line ([(''addi'', ''$0, $0, 0'')], Map.empty(''L'' \<mapsto> 0)) ''L: nop''
       = Inr ([(''addi'', ''$0, $0, 0''), (''addi'', ''$0, $0, 0'')],
              (Map.empty(''L'' \<mapsto> 0))(''L'' \<mapsto> 1))"
    by simp
  from duplicate_label_overwrites
         [THEN conjunct2, THEN conjunct1, of "''L: nop''" "''L''" "Map.empty(''L'' \<mapsto> 0)" 0
            "[(''addi'', ''x0, x0, 0'')]" "[(''addi'', ''x0, x0, 0'')]" 4]
       r1 m2 r3
  have r: "rv_pass1_line ([(''addi'', ''x0, x0, 0'')], 4, Map.empty(''L'' \<mapsto> 0)) ''L: nop''
       = Inr ([(''addi'', ''x0, x0, 0''), (''addi'', ''x0, x0, 0'')], 8,
              (Map.empty(''L'' \<mapsto> 0))(''L'' \<mapsto> 4))"
    by simp
  from m1 m2 m3 m r1 r3 r show ?thesis
    by blast
qed

text \<open>A program that defines \<open>L\<close> twice assembles on both assemblers, the process ends with
  status 0, and the jump goes to the second definition.\<close>

theorem duplicate_label_accepted_counterexample:
  "mips_assemble [''L: nop'', ''L: nop'', ''j L''] = Inr [''20000000'', ''20000000'', ''08000001'']
   \<and> fst (mips_main [''L: nop'', ''L: nop'', ''j L'']) = 0
   \<and> rv_assemble [''L: nop'', ''L: nop'', ''j L''] = Inr [''00000013'', ''00000013'', ''ffdff06f'']
   \<and> fst (rv_main [''L: nop'', ''L: nop'', ''j L'']) = 0"
  by code_simp

subsection \<open>A mnemonic outside the tables\<close>

text \<open>
  C3 at a concrete program. The RISC-V assembler aborts on the unknown mnemonic \<open>foo\<close>
  (the lookup \<open>OPCODES[op]\<close> raises, nothing is written, status 1). The MIPS assembler does
  not: \<open>foo\<close> matches no branch of the chain, \<open>machine_code\<close> keeps its initial value and
  the word \<open>00000000\<close> is emitted, the process ends with status 0 and the output file is
  written. The same happens to \<open>bne\<close>, which the MIPS tables do not contain.
\<close>

theorem mips_unknown_mnemonic_emits_zero_word:
  "mips_assemble [''foo $t0''] = Inr [''00000000'']
   \<and> fst (mips_main [''foo $t0'']) = 0
   \<and> snd (mips_main [''foo $t0'']) \<noteq> None
   \<and> mips_assemble [''loop: bne $t0, $t1, loop''] = Inr [''00000000'']
   \<and> map_of R_TYPE ''foo'' = None \<and> map_of MIPS_OPCODES ''foo'' = None
   \<and> rv_assemble [''foo t0''] = Inl KeyError
   \<and> rv_main [''foo t0''] = (1, None)"
  by code_simp

subsection \<open>The limit on decimal conversions\<close>

lemma digits_of_nonempty: "digits_of b n \<noteq> []"
  by (subst digits_of.simps) simp

lemma digits_of_length_le:
  "0 < k \<Longrightarrow> n < 10 ^ k \<Longrightarrow> length (digits_of 10 n) \<le> k"
proof (induction k arbitrary: n)
  case 0
  then show ?case by simp
next
  case (Suc j)
  show ?case
  proof (cases "n < 10")
    case True
    then show ?thesis
      by (subst digits_of.simps) simp
  next
    case False
    then have j: "0 < j"
      using Suc.prems(2) by (cases j) simp_all
    from Suc.prems(2) have "n div 10 < 10 ^ j"
      by (simp add: div_less_iff_less_mult mult.commute)
    from Suc.IH [OF j this] False show ?thesis
      by (subst digits_of.simps) simp
  qed
qed

lemma digits_of_length_gt:
  "10 ^ k \<le> n \<Longrightarrow> k < length (digits_of 10 n)"
proof (induction k arbitrary: n)
  case 0
  show ?case
    using digits_of_nonempty [of 10 n] by (cases "digits_of 10 n") simp_all
next
  case (Suc j)
  have "(1 :: int) \<le> 10 ^ j"
    by simp
  then have t: "(10 :: int) \<le> 10 * 10 ^ j"
    by linarith
  from Suc.prems have p: "10 * 10 ^ j \<le> n"
    by simp
  from t p have n: "\<not> n < 10"
    by linarith
  have "(10 * 10 ^ j) div 10 \<le> n div 10"
    using p by (intro zdiv_mono1) simp_all
  then have "10 ^ j \<le> n div 10"
    by simp
  from Suc.IH [OF this] n show ?case
    by (subst digits_of.simps) simp
qed

lemma str_int_ok: "\<bar>v\<bar> < 10 ^ max_str_digits \<Longrightarrow> str_int v = Inr (int_digits v)"
proof -
  assume "\<bar>v\<bar> < 10 ^ max_str_digits"
  moreover have "0 < max_str_digits"
    by (simp add: max_str_digits_def)
  ultimately have "length (digits_of 10 \<bar>v\<bar>) \<le> max_str_digits"
    by (intro digits_of_length_le)
  then show ?thesis
    by (simp add: str_int_def)
qed

lemma str_int_limit: "10 ^ max_str_digits \<le> \<bar>v\<bar> \<Longrightarrow> str_int v = Inl ValueError"
  using digits_of_length_gt [of max_str_digits "\<bar>v\<bar>"] by (simp add: str_int_def)

lemma small_below_limit: "\<bar>v\<bar> \<le> 65536 \<Longrightarrow> \<bar>v :: int\<bar> < 10 ^ max_str_digits"
proof -
  assume a: "\<bar>v\<bar> \<le> 65536"
  have "(10 :: int) ^ 5 \<le> 10 ^ max_str_digits"
    by (intro power_increasing) (simp_all add: max_str_digits_def)
  moreover have "(65536 :: int) < 10 ^ 5"
    by simp
  ultimately show ?thesis
    using a by linarith
qed

lemma masked_below_limit:
  "\<bar>(x :: int) AND 0xFFFF\<bar> < 10 ^ max_str_digits" "\<bar>(x :: int) AND 0xFFF\<bar> < 10 ^ max_str_digits"
proof -
  have "\<bar>take_bit 16 x\<bar> \<le> 65536"
    using take_bit_int_less_exp [of 16 x] by simp
  then show "\<bar>x AND 0xFFFF\<bar> < 10 ^ max_str_digits"
    by (simp only: and_ffff small_below_limit)
  have "\<bar>take_bit 12 x\<bar> \<le> 65536"
    using take_bit_int_less_exp [of 12 x] by simp
  then show "\<bar>x AND 0xFFF\<bar> < 10 ^ max_str_digits"
    by (simp only: and_fff small_below_limit)
qed

lemma strip_id:
  assumes "s \<noteq> []" "\<not> isspace (hd s)" "\<not> isspace (last s)"
  shows "strip s = s"
proof -
  have "dropWhile isspace s = s"
    using assms by (simp add: dropWhile_eq_self_iff)
  moreover have "dropWhile isspace (rev s) = rev s"
    using assms by (simp add: dropWhile_eq_self_iff hd_rev)
  ultimately show ?thesis
    by (simp add: strip_def)
qed

lemma py_int_hex_zeros: "py_int True (''0x1'' @ replicate n (CHR ''0'')) = Inr (16 ^ n)"
proof -
  let ?s = "''0x1'' @ replicate n (CHR ''0'')"
  have z: "parse_digits 16 True acc (replicate k (CHR ''0'')) = Some (acc * 16 ^ k)" for acc k
    by (induction k arbitrary: acc) (simp_all add: digit_val_def)
  have l: "\<not> c_isspace (last ?s)"
    by (cases "n = 0") (simp_all add: c_isspace_def)
  have "dropWhile c_isspace ?s = ?s"
    by (simp add: c_isspace_def)
  moreover have "dropWhile c_isspace (rev ?s) = rev ?s"
    using l by (subst dropWhile_eq_self_iff) (simp only: hd_rev simp_thms)
  ultimately have "rev (dropWhile c_isspace (rev (dropWhile c_isspace ?s))) = ?s"
    by simp
  moreover have "parse_magnitude True ?s = Some (16 ^ n)"
    by (simp add: parse_magnitude_def lower_char_def digit_val_def z)
  ultimately show ?thesis
    by (simp add: py_int_def)
qed

lemma ten_below_two: "(10 :: int) ^ (3 * m + 1) \<le> 2 ^ (10 * m + 4)"
proof (induction m)
  case 0
  show ?case by simp
next
  case (Suc m)
  have "(10 :: int) ^ (3 * Suc m + 1) = 1000 * 10 ^ (3 * m + 1)"
    by (simp add: power_add)
  also have "\<dots> \<le> 1024 * 2 ^ (10 * m + 4)"
    using Suc.IH by (intro mult_mono) simp_all
  also have "\<dots> = 2 ^ (10 * Suc m + 4)"
    by (simp add: power_add)
  finally show ?case .
qed

lemma rv_li_huge_hex:
  assumes "max_str_digits \<le> 3 * m + 1" "10 * m + 4 \<le> 4 * n"
  shows "rv_expand ''li'' (''t0, 0x1'' @ replicate (n + 3) (CHR ''0'')) = Inl ValueError"
proof -
  let ?z = "replicate (n + 3) (CHR ''0'')"
  have sp: "split1 (CHR '','') (''t0, 0x1'' @ ?z) = Inr (''t0'', '' 0x1'' @ ?z)"
    by (simp add: split1_def)
  have "strip ('' 0x1'' @ ?z) = strip (''0x1'' @ ?z)"
    by (simp add: strip_def isspace_def)
  also have "\<dots> = ''0x1'' @ ?z"
    by (intro strip_id) (simp_all add: isspace_def)
  finally have st: "strip ('' 0x1'' @ ?z) = ''0x1'' @ ?z" .
  have "(16 :: int) ^ (n + 3) + 0x800 = 2048 + 16 ^ n * 4096"
    by (simp add: power_add)
  then have up: "drop_bit 12 ((16 :: int) ^ (n + 3) + 0x800) = 16 ^ n"
    by (simp only: drop_bit_eq_div) simp
  have "(10 :: int) ^ max_str_digits \<le> 10 ^ (3 * m + 1)"
    using assms(1) by (intro power_increasing) simp_all
  also have "\<dots> \<le> 2 ^ (10 * m + 4)"
    by (rule ten_below_two)
  also have "\<dots> \<le> 2 ^ (4 * n)"
    using assms(2) by (intro power_increasing) simp_all
  also have "\<dots> = (16 :: int) ^ n"
    by (simp add: power_mult)
  finally have "(10 :: int) ^ max_str_digits \<le> \<bar>16 ^ n\<bar>"
    by simp
  then have "str_int (16 ^ n) = Inl ValueError"
    by (rule str_int_limit)
  moreover have "py_int True (CHR ''0'' # CHR ''x'' # CHR ''1'' # ?z) = Inr (16 ^ (n + 3))"
    using py_int_hex_zeros [of "n + 3"] by simp
  ultimately show ?thesis
    using sp st up by (simp add: rv_expand_def bind_err_simps Let_def)
qed

lemma rv_main_huge_hex:
  assumes "max_str_digits \<le> 3 * m + 1" "10 * m + 4 \<le> 4 * n"
  shows "rv_main [''li t0, 0x1'' @ replicate (n + 3) (CHR ''0'')] = (1, None)"
proof -
  let ?z = "replicate (n + 3) (CHR ''0'')"
  let ?l = "''li t0, 0x1'' @ ?z"
  have sf: "split_first (CHR ''#'') ?l = ?l"
    by (simp add: split_first_def takeWhile_eq_all_conv)
  have st: "strip ?l = ?l"
    by (intro strip_id) (simp_all add: isspace_def)
  from sf st have rl: "rv_read_lines [?l] = [?l]"
    by (simp add: rv_read_lines_def)
  have sm: "split_mnemonic ?l = (''li'', ''t0, 0x1'' @ ?z)"
    by (simp add: split_mnemonic_def isblank_def)
  have lo: "str_lower ''li'' = ''li''"
    by (simp add: str_lower_def lower_char_def)
  have nc: "CHR '':'' \<notin> set ?l"
    by simp
  have "rv_pass1_line ([], 0, Map.empty) ?l = Inl ValueError"
    using nc sm lo rv_li_huge_hex [OF assms]
    by (simp add: rv_pass1_line_def Let_def bind_err_simps)
  with rl have "rv_pass1 [?l] = Inl ValueError"
    by (simp add: rv_pass1_def bind_err_simps)
  then show ?thesis
    by (simp add: rv_main_def rv_assemble_def bind_err_simps)
qed

text \<open>
  C5, as the code has it. Let the operand text of an \<open>li\<close> statement split at its first comma
  into the register text \<open>rd\<close> and a literal that \<open>int\<close> accepts, of value \<open>imm\<close>. The MIPS
  assembler emits the single instruction \<open>addi rd, $0, imm\<close> when \<open>-32768 \<le> imm \<le> 32767\<close>;
  otherwise it emits \<open>lui rd, upper\<close> with \<open>upper = (imm >> 16) & 0xFFFF\<close>, followed by
  \<open>ori rd, rd, lower\<close> with \<open>lower = imm & 0xFFFF\<close> exactly when \<open>lower\<close> is not zero. The
  RISC-V assembler emits the two instructions \<open>lui rd, (imm + 0x800) >> 12\<close> and
  \<open>addi rd, rd, imm & 0xFFF\<close> whenever the decimal text of \<open>(imm + 0x800) >> 12\<close> has at most
  4300 digits; beyond that the formatting of the \<open>lui\<close> operand raises ValueError and nothing
  is emitted.
\<close>

theorem li_expansion:
  assumes "split1 (CHR '','') args = Inr (rd, imm_s)"
    and "py_int True (strip imm_s) = Inr imm"
  shows "mips_expand ''li'' args =
           Inr (if - 32768 \<le> imm \<and> imm \<le> 32767
                then [(''addi'', rd @ '', $0, '' @ int_digits imm)]
                else if imm AND 0xFFFF \<noteq> 0
                then [(''lui'', rd @ '', '' @ int_digits (drop_bit 16 imm AND 0xFFFF)),
                      (''ori'', rd @ '', '' @ rd @ '', '' @ int_digits (imm AND 0xFFFF))]
                else [(''lui'', rd @ '', '' @ int_digits (drop_bit 16 imm AND 0xFFFF))])
       \<and> length (projr (mips_expand ''li'' args)) \<in> {1, 2}
       \<and> rv_expand ''li'' args =
           (if \<bar>drop_bit 12 (imm + 0x800)\<bar> < 10 ^ max_str_digits
            then Inr [(''lui'', rd @ '', '' @ int_digits (drop_bit 12 (imm + 0x800))),
                      (''addi'', rd @ '', '' @ rd @ '', '' @ int_digits (imm AND 0xFFF))]
            else Inl ValueError)"
proof -
  have s1: "str_int imm = Inr (int_digits imm)" if "- 32768 \<le> imm \<and> imm \<le> 32767"
    using that by (intro str_int_ok small_below_limit) linarith
  have s2: "str_int (drop_bit 16 imm AND 0xFFFF) = Inr (int_digits (drop_bit 16 imm AND 0xFFFF))"
    "str_int (imm AND 0xFFFF) = Inr (int_digits (imm AND 0xFFFF))"
    "str_int (imm AND 0xFFF) = Inr (int_digits (imm AND 0xFFF))"
    by (intro str_int_ok masked_below_limit)+
  have s3: "str_int (drop_bit 12 (imm + 0x800)) = Inr (int_digits (drop_bit 12 (imm + 0x800)))"
    if "\<bar>drop_bit 12 (imm + 0x800)\<bar> < 10 ^ max_str_digits"
    using that by (rule str_int_ok)
  have s4: "str_int (drop_bit 12 (imm + 0x800)) = Inl ValueError"
    if "\<not> \<bar>drop_bit 12 (imm + 0x800)\<bar> < 10 ^ max_str_digits"
    using that by (intro str_int_limit) simp
  have m: "mips_expand ''li'' args =
           Inr (if - 32768 \<le> imm \<and> imm \<le> 32767
                then [(''addi'', rd @ '', $0, '' @ int_digits imm)]
                else if imm AND 0xFFFF \<noteq> 0
                then [(''lui'', rd @ '', '' @ int_digits (drop_bit 16 imm AND 0xFFFF)),
                      (''ori'', rd @ '', '' @ rd @ '', '' @ int_digits (imm AND 0xFFFF))]
                else [(''lui'', rd @ '', '' @ int_digits (drop_bit 16 imm AND 0xFFFF))])"
    using assms s1 s2 by (simp add: mips_expand_def bind_err_simps Let_def)
  then have l: "length (projr (mips_expand ''li'' args)) \<in> {1, 2}"
    by simp
  have r: "rv_expand ''li'' args =
           (if \<bar>drop_bit 12 (imm + 0x800)\<bar> < 10 ^ max_str_digits
            then Inr [(''lui'', rd @ '', '' @ int_digits (drop_bit 12 (imm + 0x800))),
                      (''addi'', rd @ '', '' @ rd @ '', '' @ int_digits (imm AND 0xFFF))]
            else Inl ValueError)"
    using assms s2 s3 s4 by (simp add: rv_expand_def bind_err_simps Let_def)
  from m l r show ?thesis
    by blast
qed

theorem li_expansion_witness:
  "split1 (CHR '','') ''$t0, 100000'' = Inr (''$t0'', '' 100000'')
   \<and> py_int True (strip '' 100000'') = Inr 100000
   \<and> mips_expand ''li'' ''$t0, 100000'' = Inr [(''lui'', ''$t0, 1''), (''ori'', ''$t0, $t0, 34464'')]
   \<and> rv_expand ''li'' ''$t0, 100000'' = Inr [(''lui'', ''$t0, 24''), (''addi'', ''$t0, $t0, 1696'')]
   \<and> split1 (CHR '','') ''$t0, 5'' = Inr (''$t0'', '' 5'')
   \<and> py_int True (strip '' 5'') = Inr 5
   \<and> mips_expand ''li'' ''$t0, 5'' = Inr [(''addi'', ''$t0, $0, 5'')]
   \<and> split1 (CHR '','') ''$t0, 0x10000'' = Inr (''$t0'', '' 0x10000'')
   \<and> py_int True (strip '' 0x10000'') = Inr 65536
   \<and> mips_expand ''li'' ''$t0, 0x10000'' = Inr [(''lui'', ''$t0, 1'')]"
proof -
  have a1: "split1 (CHR '','') ''$t0, 100000'' = Inr (''$t0'', '' 100000'')"
    by code_simp
  have a2: "py_int True (strip '' 100000'') = Inr 100000"
    by code_simp
  have b1: "split1 (CHR '','') ''$t0, 5'' = Inr (''$t0'', '' 5'')"
    by code_simp
  have b2: "py_int True (strip '' 5'') = Inr 5"
    by code_simp
  have c1: "split1 (CHR '','') ''$t0, 0x10000'' = Inr (''$t0'', '' 0x10000'')"
    by code_simp
  have c2: "py_int True (strip '' 0x10000'') = Inr 65536"
    by code_simp
  have v: "int_digits (drop_bit 16 100000 AND 0xFFFF) = ''1''"
    "int_digits (100000 AND 0xFFFF) = ''34464''"
    "int_digits (drop_bit 12 (100000 + 0x800)) = ''24''" "int_digits (100000 AND 0xFFF) = ''1696''"
    "int_digits 5 = ''5''" "int_digits (drop_bit 16 65536 AND 0xFFFF) = ''1''"
    "(100000 :: int) AND 0xFFFF \<noteq> 0" "(65536 :: int) AND 0xFFFF = 0"
    by code_simp+
  have u: "\<bar>drop_bit 12 (100000 + 0x800 :: int)\<bar> < 10 ^ max_str_digits"
    by (intro small_below_limit) simp
  from li_expansion [OF a1 a2] v
  have a: "mips_expand ''li'' ''$t0, 100000'' = Inr [(''lui'', ''$t0, 1''), (''ori'', ''$t0, $t0, 34464'')]"
    by simp
  from li_expansion [OF a1 a2] u
  have "rv_expand ''li'' ''$t0, 100000'' =
      Inr [(''lui'', ''$t0'' @ '', '' @ int_digits (drop_bit 12 (100000 + 0x800))),
           (''addi'', ''$t0'' @ '', '' @ ''$t0'' @ '', '' @ int_digits (100000 AND 0xFFF))]"
    by (simp only: if_True)
  with v have a': "rv_expand ''li'' ''$t0, 100000'' = Inr [(''lui'', ''$t0, 24''), (''addi'', ''$t0, $t0, 1696'')]"
    by simp
  from li_expansion [OF b1 b2] v
  have b: "mips_expand ''li'' ''$t0, 5'' = Inr [(''addi'', ''$t0, $0, 5'')]"
    by simp
  from li_expansion [OF c1 c2] v
  have c: "mips_expand ''li'' ''$t0, 0x10000'' = Inr [(''lui'', ''$t0, 1'')]"
    by simp
  from a1 a2 a a' b1 b2 b c1 c2 c show ?thesis
    by blast
qed

text \<open>
  C5, the claim as the spec words it fails for the RISC-V assembler on a hexadecimal literal
  with 3600 zeros after \<open>0x1\<close>: the literal is accepted (hexadecimal text has no length
  limit), \<open>(imm + 0x800) >> 12\<close> is \<open>16^3597\<close>, its decimal text has more than 4300 digits, so
  formatting the \<open>lui\<close> operand raises ValueError; no instruction is emitted and the run ends
  with status 1 and no output file.
\<close>

theorem rv_li_huge_literal_counterexample:
  "rv_expand ''li'' (''t0, 0x1'' @ replicate 3600 (CHR ''0'')) = Inl ValueError
   \<and> rv_main [''li t0, 0x1'' @ replicate 3600 (CHR ''0'')] = (1, None)"
proof -
  have "rv_expand ''li'' (''t0, 0x1'' @ replicate (3597 + 3) (CHR ''0'')) = Inl ValueError"
    by (rule rv_li_huge_hex [of 1433]) (simp_all add: max_str_digits_def)
  moreover have "rv_main [''li t0, 0x1'' @ replicate (3597 + 3) (CHR ''0'')] = (1, None)"
    by (rule rv_main_huge_hex [of 1433]) (simp_all add: max_str_digits_def)
  ultimately show ?thesis
    by simp
qed

subsection \<open>One output word per canonical instruction, in order\<close>

lemma no_statement_mips: "no_statement l \<Longrightarrow> mips_line_instrs l = Inr []"
  by (auto simp: no_statement_def mips_line_instrs_def Let_def)

lemma rv_read_lines_append: "rv_read_lines (xs @ ys) = rv_read_lines xs @ rv_read_lines ys"
  by (simp add: rv_read_lines_def)

lemma no_statement_rv:
  "no_statement l \<Longrightarrow> program_instrs rv_line_instrs (rv_read_lines [l]) = Inr []"
  by (auto simp: no_statement_def rv_read_lines_def rv_line_instrs_def Let_def bind_err_simps)

lemma program_instrs_skip:
  assumes "program_instrs li l = Inr []"
  shows "program_instrs li (xs @ l @ ys) = program_instrs li (xs @ ys)"
  using assms
  by (cases "program_instrs li xs"; cases "program_instrs li ys")
     (simp_all add: program_instrs_append bind_err_simps)

text \<open>
  The count and the order of the output words. When a program assembles, pass 1 has
  produced the canonical instruction list, which is the concatenation of the expansions of
  the source lines, and the output has exactly one word per canonical instruction: the word
  at position \<open>i\<close> is the formatted encoding of the instruction at position \<open>i\<close> (at address
  \<open>4 * i\<close> on RISC-V, where the encoding is reduced to 32 bits before it is formatted; the
  MIPS assembler formats the encoding as it is). A blank, comment-only or label-only line
  can be removed from a program without changing its canonical instruction list.
\<close>

lemma output_words_in_instruction_order:
  "(mips_assemble raw = Inr ws \<longrightarrow>
      (\<exists>code labels. mips_preprocess raw = Inr (code, labels)
         \<and> program_instrs mips_line_instrs raw = Inr code
         \<and> length ws = length code
         \<and> (\<forall>i < length code. \<exists>mc. mips_encode labels i (code ! i) = Inr mc
                \<and> ws ! i = format_08x mc)))
   \<and> (rv_assemble f = Inr ws' \<longrightarrow>
      (\<exists>code pc labels. rv_pass1 f = Inr (code, pc, labels)
         \<and> program_instrs rv_line_instrs (rv_read_lines f) = Inr code
         \<and> length ws' = length code
         \<and> (\<forall>i < length code. \<exists>c. rv_encode labels (4 * int i) (code ! i) = Inr c
                \<and> ws' ! i = format_08x (c AND 0xFFFFFFFF))))
   \<and> (no_statement l \<longrightarrow>
        program_instrs mips_line_instrs (xs @ l # ys) = program_instrs mips_line_instrs (xs @ ys)
      \<and> program_instrs rv_line_instrs (rv_read_lines (xs @ l # ys))
          = program_instrs rv_line_instrs (rv_read_lines (xs @ ys)))"
proof (intro conjI impI)
  assume a: "mips_assemble raw = Inr ws"
  then obtain code labels where
    p: "mips_preprocess raw = Inr (code, labels)"
    and l: "mips_assemble_loop labels 0 code [] = Inr ws"
    by (auto simp: mips_assemble_def bind_err_Inr_iff)
  from p have "program_instrs mips_line_instrs raw = Inr code"
    using mips_preprocess_loop_Inr [of "[]" Map.empty raw code labels]
    by (simp add: mips_preprocess_def)
  moreover from mips_assemble_loop_Inr [OF l]
  have "length ws = length code"
    and "\<forall>i < length code. \<exists>mc. mips_encode labels i (code ! i) = Inr mc \<and> ws ! i = format_08x mc"
    by simp_all
  ultimately show "\<exists>code labels. mips_preprocess raw = Inr (code, labels)
         \<and> program_instrs mips_line_instrs raw = Inr code
         \<and> length ws = length code
         \<and> (\<forall>i < length code. \<exists>mc. mips_encode labels i (code ! i) = Inr mc
                \<and> ws ! i = format_08x mc)"
    using p by blast
next
  assume a: "rv_assemble f = Inr ws'"
  then obtain code pc labels where
    p: "rv_pass1 f = Inr (code, pc, labels)"
    and l: "rv_pass2_loop labels 0 code [] = Inr ws'"
    by (auto simp: rv_assemble_def bind_err_Inr_iff)
  from p have "program_instrs rv_line_instrs (rv_read_lines f) = Inr code"
    using rv_pass1_loop_Inr [of "[]" 0 Map.empty "rv_read_lines f" code pc labels]
    by (simp add: rv_pass1_def)
  moreover from rv_pass2_loop_Inr [OF l]
  have "length ws' = length code"
    and "\<forall>i < length code. \<exists>c. rv_encode labels (4 * int i) (code ! i) = Inr c
            \<and> ws' ! i = format_08x (c AND 0xFFFFFFFF)"
    by simp_all
  ultimately show "\<exists>code pc labels. rv_pass1 f = Inr (code, pc, labels)
         \<and> program_instrs rv_line_instrs (rv_read_lines f) = Inr code
         \<and> length ws' = length code
         \<and> (\<forall>i < length code. \<exists>c. rv_encode labels (4 * int i) (code ! i) = Inr c
                \<and> ws' ! i = format_08x (c AND 0xFFFFFFFF))"
    using p by blast
next
  assume n: "no_statement l"
  have "program_instrs mips_line_instrs [l] = Inr []"
    using no_statement_mips [OF n] by (simp add: bind_err_simps)
  from program_instrs_skip [OF this, of xs ys]
  show "program_instrs mips_line_instrs (xs @ l # ys) = program_instrs mips_line_instrs (xs @ ys)"
    by simp
next
  assume n: "no_statement l"
  from program_instrs_skip [OF no_statement_rv [OF n], of "rv_read_lines xs" "rv_read_lines ys"]
  have "program_instrs rv_line_instrs (rv_read_lines xs @ rv_read_lines [l] @ rv_read_lines ys)
          = program_instrs rv_line_instrs (rv_read_lines xs @ rv_read_lines ys)" .
  moreover have "rv_read_lines (xs @ l # ys) = rv_read_lines xs @ rv_read_lines [l] @ rv_read_lines ys"
    using rv_read_lines_append [of xs "[l] @ ys"] rv_read_lines_append [of "[l]" ys]
    by simp
  ultimately show "program_instrs rv_line_instrs (rv_read_lines (xs @ l # ys))
          = program_instrs rv_line_instrs (rv_read_lines (xs @ ys))"
    by (simp add: rv_read_lines_append)
qed

text \<open>Seven source lines, three canonical instructions, three words.\<close>

lemma output_words_in_instruction_order_example:
  "mips_assemble [''# start'', '''', ''L:'', ''li $t0, 100000'', ''  # c'', ''M: nop'', ''N:  # e'']
     = Inr [''3c080001'', ''350886a0'', ''20000000'']
   \<and> length (projr (program_instrs mips_line_instrs
        [''# start'', '''', ''L:'', ''li $t0, 100000'', ''  # c'', ''M: nop'', ''N:  # e''])) = 3
   \<and> rv_assemble [''# start'', '''', ''L:'', ''li t0, 100000'', ''  # c'', ''M: nop'', ''N:  # e'']
     = Inr [''000182b7'', ''6a028293'', ''00000013'']
   \<and> length (projr (program_instrs rv_line_instrs (rv_read_lines
        [''# start'', '''', ''L:'', ''li t0, 100000'', ''  # c'', ''M: nop'', ''N:  # e'']))) = 3
   \<and> no_statement ''N:  # e''
   \<and> program_instrs mips_line_instrs ([''nop''] @ ''N:  # e'' # [''nop''])
       = program_instrs mips_line_instrs ([''nop''] @ [''nop''])"
proof -
  let ?M = "[''# start'', '''', ''L:'', ''li $t0, 100000'', ''  # c'', ''M: nop'', ''N:  # e'']"
  let ?R = "[''# start'', '''', ''L:'', ''li t0, 100000'', ''  # c'', ''M: nop'', ''N:  # e'']"
  have m: "mips_assemble ?M = Inr [''3c080001'', ''350886a0'', ''20000000'']"
    by code_simp
  have r: "rv_assemble ?R = Inr [''000182b7'', ''6a028293'', ''00000013'']"
    by code_simp
  have n: "no_statement ''N:  # e''"
    by code_simp
  note T = output_words_in_instruction_order
  from T [THEN conjunct1, of ?M "[''3c080001'', ''350886a0'', ''20000000'']"] m
  obtain code where "program_instrs mips_line_instrs ?M = Inr code" "length code = 3"
    by auto
  then have m': "length (projr (program_instrs mips_line_instrs ?M)) = 3"
    by simp
  from T [THEN conjunct2, THEN conjunct1, of ?R "[''000182b7'', ''6a028293'', ''00000013'']"] r
  obtain code' where "program_instrs rv_line_instrs (rv_read_lines ?R) = Inr code'" "length code' = 3"
    by auto
  then have r': "length (projr (program_instrs rv_line_instrs (rv_read_lines ?R))) = 3"
    by simp
  from T [THEN conjunct2, THEN conjunct2, of "''N:  # e''" "[''nop'']" "[''nop'']"] n
  have s: "program_instrs mips_line_instrs ([''nop''] @ ''N:  # e'' # [''nop''])
       = program_instrs mips_line_instrs ([''nop''] @ [''nop''])"
    by blast
  from m m' r r' n s show ?thesis
    by blast
qed

text \<open>The width of an output word. \<open>format(v, '08x')\<close> of a value in \<open>0 .. 2^32 - 1\<close> has
  exactly eight characters, so every word the RISC-V assembler emits has eight.\<close>

lemma digits_of_hex_length:
  "0 < k \<Longrightarrow> n < 16 ^ k \<Longrightarrow> length (digits_of 16 n) \<le> k"
proof (induction k arbitrary: n)
  case 0
  then show ?case by simp
next
  case (Suc j)
  show ?case
  proof (cases "n < 16")
    case True
    then show ?thesis
      by (subst digits_of.simps) simp
  next
    case False
    then have j: "0 < j"
      using Suc.prems(2) by (cases j) simp_all
    from Suc.prems(2) have "n div 16 < 16 ^ j"
      by (simp add: div_less_iff_less_mult mult.commute)
    from Suc.IH [OF j this] False show ?thesis
      by (subst digits_of.simps) simp
  qed
qed

lemma format_08x_length:
  assumes "0 \<le> v" "v < 2 ^ 32"
  shows "length (format_08x v) = 8"
proof -
  have "length (digits_of 16 v) \<le> 8"
    using assms(2) by (intro digits_of_hex_length) simp_all
  with assms(1) show ?thesis
    by (simp add: format_08x_def Let_def)
qed

lemma rv_words_have_eight_digits:
  assumes "rv_assemble f = Inr ws" "i < length ws"
  shows "length (ws ! i) = 8"
proof -
  from assms(1) obtain code pc labels where
    "rv_pass1 f = Inr (code, pc, labels)"
    and l: "rv_pass2_loop labels 0 code [] = Inr ws"
    by (auto simp: rv_assemble_def bind_err_Inr_iff)
  from rv_pass2_loop_Inr [OF l] assms(2)
  obtain c where "ws ! i = format_08x (c AND 0xFFFFFFFF)"
    by auto
  moreover have "length (format_08x (take_bit 32 c)) = 8"
    by (rule format_08x_length) (simp, rule take_bit_int_less_exp)
  ultimately show ?thesis
    by (simp only: and_ffffffff)
qed

text \<open>
  C6. The output words of the MIPS assembler are not all 32-bit values. Its loop appends
  \<open>format(machine_code, '08x')\<close> with no \<open>& 0xFFFFFFFF\<close> (the RISC-V loop appends
  \<open>format(code & 0xFFFFFFFF, '08x')\<close>), and \<open>parse_reg\<close> accepts any integer after \<open>$\<close>.
  The one-line program \<open>add $t0, $t1, $99999\<close> assembles with status 0 to the nine-digit
  word \<open>187bf4020\<close>, and \<open>addi $-1, $0, 5\<close> to the negative word \<open>-000fffb\<close>; the RISC-V
  assembler on the same operands (\<open>x99999\<close>, \<open>x-1\<close>) emits eight-digit words.
\<close>

theorem mips_output_word_exceeds_32_bits:
  "mips_assemble [''add $t0, $t1, $99999''] = Inr [''187bf4020'']
   \<and> fst (mips_main [''add $t0, $t1, $99999'']) = 0
   \<and> mips_assemble [''addi $-1, $0, 5''] = Inr [''-000fffb'']
   \<and> fst (mips_main [''addi $-1, $0, 5'']) = 0
   \<and> rv_assemble [''add t0, t1, x99999''] = Inr [''69f302b3'']
   \<and> rv_assemble [''addi x-1, x0, 5''] = Inr [''ffffff93'']"
  by code_simp

subsection \<open>A branch or jump to an undefined label\<close>

lemma target_arg_undefined:
  assumes "k < length args" "labels (args ! k) = None" "py_int True (args ! k) = Inl ValueError"
  shows "target_arg labels args k = Inl ValueError"
  using assms by (simp add: target_arg_def arg_def resolve_target_def bind_err_simps)

lemma mips_encode_undefined:
  assumes "mips_target_index m = Some k"
    and "k < length (mips_split_args a)"
    and "labels (mips_split_args a ! k) = None"
    and "py_int True (mips_split_args a ! k) = Inl ValueError"
  shows "\<exists>e. mips_encode labels i (m, a) = Inl e"
proof -
  let ?args = "mips_split_args a"
  have t: "target_arg labels ?args k = Inl ValueError"
    using assms(2-4) by (rule target_arg_undefined)
  from assms(1) consider
    "m = ''j'' \<and> k = 0" | "m = ''jal'' \<and> k = 0" | "m = ''beq'' \<and> k = 2"
    | "m = ''blez'' \<and> k = 1" | "m = ''bltz'' \<and> k = 1"
    by (auto simp: mips_target_index_def split: if_splits)
  then show ?thesis
  proof cases
    case 1
    with t show ?thesis
      by (simp add: mips_encode_def R_TYPE_def MIPS_OPCODES_def bind_err_simps)
  next
    case 2
    with t show ?thesis
      by (simp add: mips_encode_def R_TYPE_def MIPS_OPCODES_def bind_err_simps)
  next
    case 3
    with t show ?thesis
      by (cases "mips_reg_arg ?args 0"; cases "mips_reg_arg ?args 1")
         (simp_all add: mips_encode_def mips_encode_i_def R_TYPE_def MIPS_OPCODES_def
           bind_err_simps)
  next
    case 4
    with t show ?thesis
      by (cases "mips_reg_arg ?args 0")
         (simp_all add: mips_encode_def mips_encode_i_def R_TYPE_def MIPS_OPCODES_def
           bind_err_simps)
  next
    case 5
    with t show ?thesis
      by (cases "mips_reg_arg ?args 0")
         (simp_all add: mips_encode_def mips_encode_i_def R_TYPE_def MIPS_OPCODES_def
           bind_err_simps)
  qed
qed

lemma rv_encode_undefined:
  assumes "rv_target_index opn = Some k"
    and "k < length (rv_split_args a)"
    and "labels (rv_split_args a ! k) = None"
    and "py_int True (rv_split_args a ! k) = Inl ValueError"
  shows "\<exists>e. rv_encode labels pc (opn, a) = Inl e"
proof -
  let ?args = "rv_split_args a"
  have t: "target_arg labels ?args k = Inl ValueError"
    using assms(2-4) by (rule target_arg_undefined)
  from assms(1) obtain info where
    i: "map_of RV_OPCODES opn = Some info"
    and c: "(info_op info = 0x63 \<and> k = 2) \<or> (info_op info = 0x6f \<and> k = 1)"
    by (auto simp: rv_target_index_def split: option.splits if_splits)
  from c show ?thesis
  proof
    assume "info_op info = 0x63 \<and> k = 2"
    with t i show ?thesis
      by (cases "rv_reg_arg ?args 0"; cases "rv_reg_arg ?args 1")
         (simp_all add: rv_encode_def rv_encode_info_def bind_err_simps)
  next
    assume "info_op info = 0x6f \<and> k = 1"
    with t i show ?thesis
      by (cases "rv_reg_arg ?args 0")
         (simp_all add: rv_encode_def rv_encode_info_def bind_err_simps)
  qed
qed

text \<open>
  C7. Let pass 1 succeed, and let the canonical program contain a branch or jump whose
  target operand is neither a key of the label table nor an integer literal. Then no
  output is produced: the MIPS assembler ends in \<open>sys.exit(1)\<close> and the RISC-V assembler in
  an uncaught exception, the process status is 1 and the output file is not written. (The
  source has no error class of its own: the exception behind the abort is the ValueError
  of \<open>int(name, 0)\<close>, unless an earlier instruction or a register of the same instruction
  fails first.)
\<close>

theorem undefined_label_aborts:
  "(mips_preprocess raw = Inr (code, labels) \<and> i < length code \<and> code ! i = (m, a)
      \<and> mips_target_index m = Some k \<and> k < length (mips_split_args a)
      \<and> labels (mips_split_args a ! k) = None
      \<and> py_int True (mips_split_args a ! k) = Inl ValueError
    \<longrightarrow> mips_assemble raw = Inl (SystemExit 1) \<and> mips_main raw = (1, None))
   \<and> (rv_pass1 f = Inr (code', pc, labels') \<and> i' < length code' \<and> code' ! i' = (m', a')
      \<and> rv_target_index m' = Some k' \<and> k' < length (rv_split_args a')
      \<and> labels' (rv_split_args a' ! k') = None
      \<and> py_int True (rv_split_args a' ! k') = Inl ValueError
    \<longrightarrow> (\<exists>e. rv_assemble f = Inl e) \<and> rv_main f = (1, None))"
proof (intro conjI impI)
  assume a: "mips_preprocess raw = Inr (code, labels) \<and> i < length code \<and> code ! i = (m, a)
      \<and> mips_target_index m = Some k \<and> k < length (mips_split_args a)
      \<and> labels (mips_split_args a ! k) = None
      \<and> py_int True (mips_split_args a ! k) = Inl ValueError"
  then obtain e where "mips_encode labels (0 + i) (code ! i) = Inl e"
    using mips_encode_undefined [of m k a labels i] by auto
  with a have "mips_assemble_loop labels 0 code [] = Inl (SystemExit 1)"
    using mips_assemble_loop_Inl [of i code labels 0 e "[]"] by blast
  with a show r: "mips_assemble raw = Inl (SystemExit 1)"
    by (simp add: mips_assemble_def bind_err_simps)
  then show "mips_main raw = (1, None)"
    by (simp add: mips_main_def)
next
  assume a: "rv_pass1 f = Inr (code', pc, labels') \<and> i' < length code' \<and> code' ! i' = (m', a')
      \<and> rv_target_index m' = Some k' \<and> k' < length (rv_split_args a')
      \<and> labels' (rv_split_args a' ! k') = None
      \<and> py_int True (rv_split_args a' ! k') = Inl ValueError"
  then obtain e where "rv_encode labels' (0 + 4 * int i') (code' ! i') = Inl e"
    using rv_encode_undefined [of m' k' a' labels' "0 + 4 * int i'"] by auto
  with a obtain e' where "rv_pass2_loop labels' 0 code' [] = Inl e'"
    using rv_pass2_loop_Inl [of i' code' labels' 0 e "[]"] by blast
  with a have r: "rv_assemble f = Inl e'"
    by (simp add: rv_assemble_def bind_err_simps)
  then show "\<exists>e. rv_assemble f = Inl e"
    by blast
  from r show "rv_main f = (1, None)"
    by (simp add: rv_main_def)
qed

theorem undefined_label_aborts_witness:
  "mips_target_index ''beq'' = Some 2
   \<and> mips_split_args ''$t0, $t1, nowhere'' = [''$t0'', ''$t1'', ''nowhere'']
   \<and> py_int True ''nowhere'' = Inl ValueError
   \<and> mips_label_of [''nop'', ''beq $t0, $t1, nowhere''] ''nowhere'' = None
   \<and> mips_assemble [''nop'', ''beq $t0, $t1, nowhere''] = Inl (SystemExit 1)
   \<and> mips_main [''nop'', ''beq $t0, $t1, nowhere''] = (1, None)
   \<and> rv_target_index ''jal'' = Some 1
   \<and> rv_split_args ''x0, nowhere'' = [''x0'', ''nowhere'']
   \<and> rv_label_of [''nop'', ''j nowhere''] ''nowhere'' = None
   \<and> rv_main [''nop'', ''j nowhere''] = (1, None)"
proof -
  let ?M = "[''nop'', ''beq $t0, $t1, nowhere'']"
  let ?R = "[''nop'', ''j nowhere'']"
  have m1: "mips_target_index ''beq'' = Some 2"
    by code_simp
  have m2: "mips_split_args ''$t0, $t1, nowhere'' = [''$t0'', ''$t1'', ''nowhere'']"
    by code_simp
  have m3: "py_int True ''nowhere'' = Inl ValueError"
    by code_simp
  have m4: "mips_label_of ?M ''nowhere'' = None"
    by code_simp
  have m5: "map_sum id fst (mips_preprocess ?M)
      = Inr [(''addi'', ''$0, $0, 0''), (''beq'', ''$t0, $t1, nowhere'')]"
    by code_simp
  then obtain code labels where p: "mips_preprocess ?M = Inr (code, labels)"
    and c: "code = [(''addi'', ''$0, $0, 0''), (''beq'', ''$t0, $t1, nowhere'')]"
    by (cases "mips_preprocess ?M") auto
  from p m4 have l: "labels ''nowhere'' = None"
    by (simp add: mips_label_of_def)
  from undefined_label_aborts
         [THEN conjunct1, of ?M code labels 1 "''beq''" "''$t0, $t1, nowhere''" 2]
       p c l m1 m2 m3
  have m: "mips_assemble ?M = Inl (SystemExit 1) \<and> mips_main ?M = (1, None)"
    by simp
  have r1: "rv_target_index ''jal'' = Some 1"
    by code_simp
  have r2: "rv_split_args ''x0, nowhere'' = [''x0'', ''nowhere'']"
    by code_simp
  have r4: "rv_label_of ?R ''nowhere'' = None"
    by code_simp
  have r5: "map_sum id fst (rv_pass1 ?R)
      = Inr [(''addi'', ''x0, x0, 0''), (''jal'', ''x0, nowhere'')]"
    by code_simp
  then obtain code' pc labels' where p': "rv_pass1 ?R = Inr (code', pc, labels')"
    and c': "code' = [(''addi'', ''x0, x0, 0''), (''jal'', ''x0, nowhere'')]"
    by (cases "rv_pass1 ?R") auto
  from p' r4 have l': "labels' ''nowhere'' = None"
    by (simp add: rv_label_of_def)
  from undefined_label_aborts
         [THEN conjunct2, of ?R code' pc labels' 1 "''jal''" "''x0, nowhere''" 1]
       p' c' l' r1 r2 m3
  have r: "rv_main ?R = (1, None)"
    by simp
  from m1 m2 m3 m4 m r1 r2 r4 r show ?thesis
    by blast
qed

subsection \<open>The immediate of an I-type instruction\<close>

lemma mips_pack_i_imm: "get_bits (mips_pack_i opcode rs rt imm) 15 0 = imm mod 65536"
proof -
  have "get_bits (mips_pack_i opcode rs rt imm) 15 0 = take_bit 16 imm"
    by (intro bit_eqI) (auto simp: bit_get_bits mips_pack_i_def and_ffff bit_simps)
  then show ?thesis
    by (simp add: take_bit_eq_mod)
qed

lemma mips_pack_i_high:
  "drop_bit 16 (mips_pack_i opcode rs rt imm) = push_bit 10 opcode OR push_bit 5 rs OR rt"
  by (intro bit_eqI) (auto simp: mips_pack_i_def and_ffff bit_simps)

lemma rv_pack_i_imm:
  assumes "fld 5 rs1" "fld 3 f3" "fld 5 rd" "fld 7 opc"
  shows "get_bits (rv_pack_i imm rs1 f3 rd opc AND 0xFFFFFFFF) 31 20 = imm mod 4096"
proof -
  have "get_bits (rv_pack_i imm rs1 f3 rd opc AND 0xFFFFFFFF) 31 20 = take_bit 12 imm"
    using assms
    by (intro bit_eqI)
       (auto simp: bit_get_bits rv_pack_i_def and_fff and_ffffffff bit_simps dest: fld_bit)
  then show ?thesis
    by (simp add: take_bit_eq_mod)
qed

lemma rv_pack_i_low:
  assumes "fld 5 rs1" "fld 3 f3" "fld 5 rd" "fld 7 opc"
  shows "take_bit 20 (rv_pack_i imm rs1 f3 rd opc AND 0xFFFFFFFF)
         = push_bit 15 rs1 OR push_bit 12 f3 OR push_bit 7 rd OR opc"
  using assms
  by (intro bit_eqI)
     (auto simp: rv_pack_i_def and_fff and_ffffffff bit_simps dest: fld_bit)

lemma rv_info_fld:
  assumes "map_of RV_OPCODES opn = Some info"
  shows "fld 7 (info_op info) \<and> fld 3 (case info_f3 info of Some v \<Rightarrow> v | None \<Rightarrow> 0)"
  using assms
  by (auto simp: RV_OPCODES_def mk_info_def fld_def split: if_splits)

text \<open>What the encoders return on the I-type operand forms.\<close>

lemma mips_encode_alu_imm:
  assumes "m \<in> set [''addi'', ''slti'', ''andi'', ''ori'', ''xori'']"
    and "map_of MIPS_OPCODES m = Some opcode"
    and "mips_reg_arg (mips_split_args a) 0 = Inr rt"
    and "mips_reg_arg (mips_split_args a) 1 = Inr rs"
    and "int_arg (mips_split_args a) 2 = Inr imm"
  shows "mips_encode labels i (m, a) = Inr (mips_pack_i opcode rs rt imm)"
proof -
  from assms(1) consider "m = ''addi''" | "m = ''slti''" | "m = ''andi''" | "m = ''ori''"
    | "m = ''xori''"
    by auto
  then show ?thesis
    using assms(2-5)
    by cases
       (simp_all add: mips_encode_def mips_encode_i_def R_TYPE_def bind_err_simps)
qed

lemma mips_encode_mem:
  assumes "m \<in> set [''lw'', ''sw'', ''lb'', ''sb'', ''lh'', ''sh'']"
    and "map_of MIPS_OPCODES m = Some opcode"
    and "mips_reg_arg (mips_split_args a) 0 = Inr rt"
    and "arg (mips_split_args a) 1 = Inr a1"
    and "re_search_mem a1 = Some (g1, g2)"
    and "py_int True g1 = Inr imm"
    and "mips_parse_reg g2 = Inr rs"
  shows "mips_encode labels i (m, a) = Inr (mips_pack_i opcode rs rt imm)"
proof -
  from assms(1) consider "m = ''lw''" | "m = ''sw''" | "m = ''lb''" | "m = ''sb''"
    | "m = ''lh''" | "m = ''sh''"
    by auto
  then show ?thesis
    using assms(2-7)
    by cases
       (simp_all add: mips_encode_def mips_encode_i_def R_TYPE_def bind_err_simps)
qed


lemma mips_encode_lui:
  assumes "mips_reg_arg (mips_split_args a) 0 = Inr rt"
    and "int_arg (mips_split_args a) 1 = Inr imm"
  shows "mips_encode labels i (''lui'', a) = Inr (mips_pack_i 0x0f 0 rt imm)"
  using assms
  by (simp add: mips_encode_def mips_encode_i_def R_TYPE_def MIPS_OPCODES_def bind_err_simps)


lemma rv_encode_alu_imm:
  assumes "map_of RV_OPCODES opn = Some info"
    and "info_op info \<in> set [0x13, 0x03, 0x67]"
    and "arg (rv_split_args a) 1 = Inr a1" "CHR ''('' \<notin> set a1"
    and "rv_reg_arg (rv_split_args a) 0 = Inr rd"
    and "rv_reg_arg (rv_split_args a) 1 = Inr rs1"
    and "int_arg (rv_split_args a) 2 = Inr imm"
  shows "rv_encode labels pc (opn, a)
         = Inr (rv_pack_i imm rs1 (case info_f3 info of Some v \<Rightarrow> v | None \<Rightarrow> 0) rd
                 (info_op info))"
  using assms
  by (auto simp: rv_encode_def rv_encode_info_def bind_err_simps)


lemma rv_encode_mem:
  assumes "map_of RV_OPCODES opn = Some info"
    and "info_op info \<in> set [0x13, 0x03, 0x67]"
    and "arg (rv_split_args a) 1 = Inr a1" "CHR ''('' \<in> set a1"
    and "rv_reg_arg (rv_split_args a) 0 = Inr rd"
    and "split_paren a1 = Inr (imm_s, rs1_s)"
    and "py_int True imm_s = Inr imm"
    and "rv_parse_reg (remove_char (CHR '')'') rs1_s) = Inr rs1"
  shows "rv_encode labels pc (opn, a)
         = Inr (rv_pack_i imm rs1 (case info_f3 info of Some v \<Rightarrow> v | None \<Rightarrow> 0) rd
                 (info_op info))"
  using assms
  by (auto simp: rv_encode_def rv_encode_info_def bind_err_simps)



text \<open>
  The immediate field as a function of the integer the encoder reads. On every I-type
  operand form the encoder accepts any integer and never raises a range error. On MIPS
  (ALU-immediate \<open>rt, rs, imm\<close>; \<open>lui rt, imm\<close>; load and store \<open>rt, imm($rs)\<close>) bits 15:0 of
  the word are \<open>imm mod 2^16\<close> and the bits above them are \<open>opcode\<close>, \<open>rs\<close> and \<open>rt\<close> alone. On
  RISC-V (\<open>rd, rs1, imm\<close> and \<open>rd, imm(rs1)\<close> for the opcodes 0x13, 0x03 and 0x67), with
  register numbers in \<open>0..31\<close>, bits 31:20 of the emitted word are \<open>imm mod 2^12\<close> and bits
  19:0 are \<open>rs1\<close>, \<open>funct3\<close>, \<open>rd\<close> and the opcode alone. In each case \<open>imm\<close> is the integer that
  \<open>int(text, 0)\<close> returns on the text the encoder takes from the operand; for a MIPS load or
  store that text is the first group of the match of \<open>(-?\d+)\((\$\w+)\)\<close>, which is not
  always the offset as it is written (see the end of this section).
\<close>

lemma itype_field_of_parsed_immediate:
  "(m \<in> set [''addi'', ''slti'', ''andi'', ''ori'', ''xori'']
      \<and> map_of MIPS_OPCODES m = Some opcode
      \<and> mips_reg_arg (mips_split_args a) 0 = Inr rt
      \<and> mips_reg_arg (mips_split_args a) 1 = Inr rs
      \<and> int_arg (mips_split_args a) 2 = Inr imm
    \<longrightarrow> (\<exists>w. mips_encode labels i (m, a) = Inr w
           \<and> get_bits w 15 0 = imm mod 65536
           \<and> drop_bit 16 w = push_bit 10 opcode OR push_bit 5 rs OR rt))
   \<and> (mips_reg_arg (mips_split_args a) 0 = Inr rt
      \<and> int_arg (mips_split_args a) 1 = Inr imm
    \<longrightarrow> (\<exists>w. mips_encode labels i (''lui'', a) = Inr w
           \<and> get_bits w 15 0 = imm mod 65536
           \<and> drop_bit 16 w = push_bit 10 0x0f OR push_bit 5 0 OR rt))
   \<and> (m \<in> set [''lw'', ''sw'', ''lb'', ''sb'', ''lh'', ''sh'']
      \<and> map_of MIPS_OPCODES m = Some opcode
      \<and> mips_reg_arg (mips_split_args a) 0 = Inr rt
      \<and> arg (mips_split_args a) 1 = Inr a1
      \<and> re_search_mem a1 = Some (g1, g2)
      \<and> py_int True g1 = Inr imm
      \<and> mips_parse_reg g2 = Inr rs
    \<longrightarrow> (\<exists>w. mips_encode labels i (m, a) = Inr w
           \<and> get_bits w 15 0 = imm mod 65536
           \<and> drop_bit 16 w = push_bit 10 opcode OR push_bit 5 rs OR rt))
   \<and> (map_of RV_OPCODES opn = Some info \<and> info_op info \<in> set [0x13, 0x03, 0x67]
      \<and> arg (rv_split_args a) 1 = Inr a1 \<and> CHR ''('' \<notin> set a1
      \<and> rv_reg_arg (rv_split_args a) 0 = Inr rd
      \<and> rv_reg_arg (rv_split_args a) 1 = Inr rs1
      \<and> int_arg (rv_split_args a) 2 = Inr imm
      \<and> fld 5 rd \<and> fld 5 rs1
    \<longrightarrow> (\<exists>c. rv_encode labels pc (opn, a) = Inr c
           \<and> get_bits (c AND 0xFFFFFFFF) 31 20 = imm mod 4096
           \<and> take_bit 20 (c AND 0xFFFFFFFF)
               = push_bit 15 rs1 OR push_bit 12 (case info_f3 info of Some v \<Rightarrow> v | None \<Rightarrow> 0)
                   OR push_bit 7 rd OR info_op info))
   \<and> (map_of RV_OPCODES opn = Some info \<and> info_op info \<in> set [0x13, 0x03, 0x67]
      \<and> arg (rv_split_args a) 1 = Inr a1 \<and> CHR ''('' \<in> set a1
      \<and> rv_reg_arg (rv_split_args a) 0 = Inr rd
      \<and> split_paren a1 = Inr (imm_s, rs1_s)
      \<and> py_int True imm_s = Inr imm
      \<and> rv_parse_reg (remove_char (CHR '')'') rs1_s) = Inr rs1
      \<and> fld 5 rd \<and> fld 5 rs1
    \<longrightarrow> (\<exists>c. rv_encode labels pc (opn, a) = Inr c
           \<and> get_bits (c AND 0xFFFFFFFF) 31 20 = imm mod 4096
           \<and> take_bit 20 (c AND 0xFFFFFFFF)
               = push_bit 15 rs1 OR push_bit 12 (case info_f3 info of Some v \<Rightarrow> v | None \<Rightarrow> 0)
                   OR push_bit 7 rd OR info_op info))"
proof (intro conjI impI)
  assume "m \<in> set [''addi'', ''slti'', ''andi'', ''ori'', ''xori'']
      \<and> map_of MIPS_OPCODES m = Some opcode
      \<and> mips_reg_arg (mips_split_args a) 0 = Inr rt
      \<and> mips_reg_arg (mips_split_args a) 1 = Inr rs
      \<and> int_arg (mips_split_args a) 2 = Inr imm"
  then have "mips_encode labels i (m, a) = Inr (mips_pack_i opcode rs rt imm)"
    by (intro mips_encode_alu_imm) simp_all
  then show "\<exists>w. mips_encode labels i (m, a) = Inr w
           \<and> get_bits w 15 0 = imm mod 65536
           \<and> drop_bit 16 w = push_bit 10 opcode OR push_bit 5 rs OR rt"
    by (simp only: mips_pack_i_imm mips_pack_i_high simp_thms ex_simps sum.inject)
next
  assume "mips_reg_arg (mips_split_args a) 0 = Inr rt
      \<and> int_arg (mips_split_args a) 1 = Inr imm"
  then have "mips_encode labels i (''lui'', a) = Inr (mips_pack_i 0x0f 0 rt imm)"
    by (intro mips_encode_lui) simp_all
  then show "\<exists>w. mips_encode labels i (''lui'', a) = Inr w
           \<and> get_bits w 15 0 = imm mod 65536
           \<and> drop_bit 16 w = push_bit 10 0x0f OR push_bit 5 0 OR rt"
    by (simp only: mips_pack_i_imm mips_pack_i_high simp_thms ex_simps sum.inject)
next
  assume "m \<in> set [''lw'', ''sw'', ''lb'', ''sb'', ''lh'', ''sh'']
      \<and> map_of MIPS_OPCODES m = Some opcode
      \<and> mips_reg_arg (mips_split_args a) 0 = Inr rt
      \<and> arg (mips_split_args a) 1 = Inr a1
      \<and> re_search_mem a1 = Some (g1, g2)
      \<and> py_int True g1 = Inr imm
      \<and> mips_parse_reg g2 = Inr rs"
  then have "mips_encode labels i (m, a) = Inr (mips_pack_i opcode rs rt imm)"
    by (intro mips_encode_mem [where ?a1.0 = a1 and ?g1.0 = g1 and ?g2.0 = g2]) simp_all
  then show "\<exists>w. mips_encode labels i (m, a) = Inr w
           \<and> get_bits w 15 0 = imm mod 65536
           \<and> drop_bit 16 w = push_bit 10 opcode OR push_bit 5 rs OR rt"
    by (simp only: mips_pack_i_imm mips_pack_i_high simp_thms ex_simps sum.inject)
next
  let ?f3 = "case info_f3 info of Some v \<Rightarrow> v | None \<Rightarrow> 0"
  assume h: "map_of RV_OPCODES opn = Some info \<and> info_op info \<in> set [0x13, 0x03, 0x67]
      \<and> arg (rv_split_args a) 1 = Inr a1 \<and> CHR ''('' \<notin> set a1
      \<and> rv_reg_arg (rv_split_args a) 0 = Inr rd
      \<and> rv_reg_arg (rv_split_args a) 1 = Inr rs1
      \<and> int_arg (rv_split_args a) 2 = Inr imm
      \<and> fld 5 rd \<and> fld 5 rs1"
  then have e: "rv_encode labels pc (opn, a) = Inr (rv_pack_i imm rs1 ?f3 rd (info_op info))"
    by (intro rv_encode_alu_imm [where ?a1.0 = a1]) simp_all
  from h rv_info_fld [of opn info] have f: "fld 5 rs1" "fld 3 ?f3" "fld 5 rd" "fld 7 (info_op info)"
    by simp_all
  from e rv_pack_i_imm [OF f, of imm] rv_pack_i_low [OF f, of imm]
  show "\<exists>c. rv_encode labels pc (opn, a) = Inr c
           \<and> get_bits (c AND 0xFFFFFFFF) 31 20 = imm mod 4096
           \<and> take_bit 20 (c AND 0xFFFFFFFF)
               = push_bit 15 rs1 OR push_bit 12 ?f3 OR push_bit 7 rd OR info_op info"
    by blast
next
  let ?f3 = "case info_f3 info of Some v \<Rightarrow> v | None \<Rightarrow> 0"
  assume h: "map_of RV_OPCODES opn = Some info \<and> info_op info \<in> set [0x13, 0x03, 0x67]
      \<and> arg (rv_split_args a) 1 = Inr a1 \<and> CHR ''('' \<in> set a1
      \<and> rv_reg_arg (rv_split_args a) 0 = Inr rd
      \<and> split_paren a1 = Inr (imm_s, rs1_s)
      \<and> py_int True imm_s = Inr imm
      \<and> rv_parse_reg (remove_char (CHR '')'') rs1_s) = Inr rs1
      \<and> fld 5 rd \<and> fld 5 rs1"
  then have e: "rv_encode labels pc (opn, a) = Inr (rv_pack_i imm rs1 ?f3 rd (info_op info))"
    by (intro rv_encode_mem [where ?a1.0 = a1 and imm_s = imm_s and rs1_s = rs1_s]) simp_all
  from h rv_info_fld [of opn info] have f: "fld 5 rs1" "fld 3 ?f3" "fld 5 rd" "fld 7 (info_op info)"
    by simp_all
  from e rv_pack_i_imm [OF f, of imm] rv_pack_i_low [OF f, of imm]
  show "\<exists>c. rv_encode labels pc (opn, a) = Inr c
           \<and> get_bits (c AND 0xFFFFFFFF) 31 20 = imm mod 4096
           \<and> take_bit 20 (c AND 0xFFFFFFFF)
               = push_bit 15 rs1 OR push_bit 12 ?f3 OR push_bit 7 rd OR info_op info"
    by blast
qed

text \<open>Immediates outside the field: 70000 and 0x12345 on 16 bits, 65540 in a load, 5000 and
  4100 on 12 bits. Each is encoded, reduced modulo the field.\<close>

lemma itype_field_of_parsed_immediate_examples:
  "mips_reg_arg (mips_split_args ''$t0, $0, 70000'') 0 = Inr 8
   \<and> mips_reg_arg (mips_split_args ''$t0, $0, 70000'') 1 = Inr 0
   \<and> int_arg (mips_split_args ''$t0, $0, 70000'') 2 = Inr 70000
   \<and> get_bits (projr (mips_encode Map.empty 0 (''addi'', ''$t0, $0, 70000''))) 15 0 = 4464
   \<and> int_arg (mips_split_args ''$t0, 0x12345'') 1 = Inr 0x12345
   \<and> get_bits (projr (mips_encode Map.empty 0 (''lui'', ''$t0, 0x12345''))) 15 0 = 0x2345
   \<and> re_search_mem ''65540($sp)'' = Some (''65540'', ''$sp'')
   \<and> get_bits (projr (mips_encode Map.empty 0 (''lw'', ''$t1, 65540($sp)''))) 15 0 = 4
   \<and> int_arg (rv_split_args ''a0, a1, 5000'') 2 = Inr 5000
   \<and> fld 5 10 \<and> fld 5 11
   \<and> get_bits (projr (rv_encode Map.empty 0 (''addi'', ''a0, a1, 5000'')) AND 0xFFFFFFFF) 31 20 = 904
   \<and> split_paren ''4100(sp)'' = Inr (''4100'', ''sp)'')
   \<and> fld 5 2
   \<and> get_bits (projr (rv_encode Map.empty 0 (''lw'', ''a0, 4100(sp)'')) AND 0xFFFFFFFF) 31 20 = 4"
proof -
  note T = itype_field_of_parsed_immediate
  have a: "''addi'' \<in> set [''addi'', ''slti'', ''andi'', ''ori'', ''xori'']"
    "map_of MIPS_OPCODES ''addi'' = Some 0x08"
    "mips_reg_arg (mips_split_args ''$t0, $0, 70000'') 0 = Inr 8"
    "mips_reg_arg (mips_split_args ''$t0, $0, 70000'') 1 = Inr 0"
    "int_arg (mips_split_args ''$t0, $0, 70000'') 2 = Inr 70000"
    by code_simp+
  from T [THEN conjunct1, of "''addi''" "0x08" "''$t0, $0, 70000''" 8 0 70000 Map.empty 0] a
  have a': "get_bits (projr (mips_encode Map.empty 0 (''addi'', ''$t0, $0, 70000''))) 15 0 = 4464"
    by auto
  have b: "mips_reg_arg (mips_split_args ''$t0, 0x12345'') 0 = Inr 8"
    "int_arg (mips_split_args ''$t0, 0x12345'') 1 = Inr 0x12345"
    by code_simp+
  from T [THEN conjunct2, THEN conjunct1, of "''$t0, 0x12345''" 8 "0x12345" Map.empty 0] b
  have b': "get_bits (projr (mips_encode Map.empty 0 (''lui'', ''$t0, 0x12345''))) 15 0 = 0x2345"
    by auto
  have c: "''lw'' \<in> set [''lw'', ''sw'', ''lb'', ''sb'', ''lh'', ''sh'']"
    "map_of MIPS_OPCODES ''lw'' = Some 0x23"
    "mips_reg_arg (mips_split_args ''$t1, 65540($sp)'') 0 = Inr 9"
    "arg (mips_split_args ''$t1, 65540($sp)'') 1 = Inr ''65540($sp)''"
    "re_search_mem ''65540($sp)'' = Some (''65540'', ''$sp'')"
    "py_int True ''65540'' = Inr 65540"
    "mips_parse_reg ''$sp'' = Inr 29"
    by code_simp+
  from T [THEN conjunct2, THEN conjunct2, THEN conjunct1,
          of "''lw''" "0x23" "''$t1, 65540($sp)''" 9 "''65540($sp)''" "''65540''" "''$sp''" 65540 29
             Map.empty 0] c
  have c': "get_bits (projr (mips_encode Map.empty 0 (''lw'', ''$t1, 65540($sp)''))) 15 0 = 4"
    by auto
  have d: "map_of RV_OPCODES ''addi'' = Some (mk_info 0x13 (Some 0x0) None)"
    "info_op (mk_info 0x13 (Some 0x0) None) \<in> set [0x13, 0x03, 0x67]"
    "arg (rv_split_args ''a0, a1, 5000'') 1 = Inr ''a1''" "CHR ''('' \<notin> set ''a1''"
    "rv_reg_arg (rv_split_args ''a0, a1, 5000'') 0 = Inr 10"
    "rv_reg_arg (rv_split_args ''a0, a1, 5000'') 1 = Inr 11"
    "int_arg (rv_split_args ''a0, a1, 5000'') 2 = Inr 5000"
    "fld 5 10" "fld 5 11"
    by code_simp+
  from T [THEN conjunct2, THEN conjunct2, THEN conjunct2, THEN conjunct1,
          of "''addi''" "mk_info 0x13 (Some 0x0) None" "''a0, a1, 5000''" "''a1''" 10 11 5000
             Map.empty 0] d
  have d': "get_bits (projr (rv_encode Map.empty 0 (''addi'', ''a0, a1, 5000'')) AND 0xFFFFFFFF) 31 20
      = 904"
    by auto
  have e: "map_of RV_OPCODES ''lw'' = Some (mk_info 0x03 (Some 0x2) None)"
    "info_op (mk_info 0x03 (Some 0x2) None) \<in> set [0x13, 0x03, 0x67]"
    "arg (rv_split_args ''a0, 4100(sp)'') 1 = Inr ''4100(sp)''" "CHR ''('' \<in> set ''4100(sp)''"
    "rv_reg_arg (rv_split_args ''a0, 4100(sp)'') 0 = Inr 10"
    "split_paren ''4100(sp)'' = Inr (''4100'', ''sp)'')"
    "py_int True ''4100'' = Inr 4100"
    "rv_parse_reg (remove_char (CHR '')'') ''sp)'') = Inr 2"
    "fld 5 2"
    by code_simp+
  from T [THEN conjunct2, THEN conjunct2, THEN conjunct2, THEN conjunct2,
          of "''lw''" "mk_info 0x03 (Some 0x2) None" "''a0, 4100(sp)''" "''4100(sp)''" 10
             "''4100''" "''sp)''" 4100 2 Map.empty 0] e d(8)
  have e': "get_bits (projr (rv_encode Map.empty 0 (''lw'', ''a0, 4100(sp)'')) AND 0xFFFFFFFF) 31 20
      = 4"
    by auto
  from a a' b b' c c' d d' e e' show ?thesis
    by blast
qed

text \<open>
  C8. The MIPS load and store branch does not encode the low bits of the offset operand
  when the offset is written in hexadecimal. The branch takes the offset text with
  \<open>re.search(r'(-?\d+)\((\$\w+)\)', args[1])\<close>; the search skips a prefix that the pattern
  cannot match, so on \<open>0x10($sp)\<close> and on \<open>-0x10($sp)\<close> the first group is \<open>10\<close>, and the
  word holds 10 in its immediate field, as for \<open>10($sp)\<close>. The operand \<open>0x10\<close> is the integer
  16 for \<open>int(text, 0)\<close>, which the same branch calls, for the MIPS ALU-immediate branch and
  for the RISC-V load: those encode 16.
\<close>

theorem mips_load_store_offset_drops_hex_prefix:
  "mips_assemble [''lw $t0, 0x10($sp)''] = Inr [''8fa8000a'']
   \<and> fst (mips_main [''lw $t0, 0x10($sp)'']) = 0
   \<and> mips_assemble [''lw $t0, -0x10($sp)''] = Inr [''8fa8000a'']
   \<and> mips_assemble [''lw $t0, 10($sp)''] = Inr [''8fa8000a'']
   \<and> mips_assemble [''lw $t0, 16($sp)''] = Inr [''8fa80010'']
   \<and> re_search_mem ''0x10($sp)'' = Some (''10'', ''$sp'')
   \<and> re_search_mem ''-0x10($sp)'' = Some (''10'', ''$sp'')
   \<and> py_int True ''0x10'' = Inr 16
   \<and> py_int True ''-0x10'' = Inr (- 16)
   \<and> mips_assemble [''addi $t0, $sp, 0x10''] = Inr [''23a80010'']
   \<and> rv_assemble [''lw t0, 0x10(sp)''] = Inr [''01012283'']
   \<and> rv_assemble [''lw t0, -0x10(sp)''] = Inr [''ff012283'']"
  by code_simp

subsection \<open>The offset of a branch or jump to a label\<close>

















end
